theory Spec2Isabelle
  imports Main "HOL-Library.Sublist" "HOL-Library.AList"
begin

section \<open>Versioning of Android vendored modules\<close>

text \<open>
  A shallow embedding of \<^verbatim>\<open>tools/src/versioning/android/versionVendoredModules.ts\<close>.
  Strings are lists of characters, SDK numbers are integers, and the asynchronous
  functions of the source become functions from the file system to a result, the new
  file system and the list of effects they issued.
\<close>

subsection \<open>Strings and numbers\<close>

text \<open>
  The template literal \<^verbatim>\<open>`abi${sdkNumber}_0_0`\<close> renders the number with
  \<^verbatim>\<open>Number.prototype.toString\<close>: for an integer, the decimal digits, with a
  leading minus sign when it is negative. (JavaScript switches to exponent notation
  from \<^verbatim>\<open>1e21\<close> on; SDK numbers are far below.)
\<close>

definition digit_char :: "nat \<Rightarrow> char" where
  "digit_char d = char_of (48 + d)"

fun digits :: "nat \<Rightarrow> string" where
  "digits n = (if n < 10 then [digit_char n] else digits (n div 10) @ [digit_char (n mod 10)])"

declare digits.simps [simp del]

definition number_toString :: "int \<Rightarrow> string" where
  "number_toString n = (if n < 0 then CHR ''-'' # digits (nat (- n)) else digits (nat n))"

text \<open>Line 24: \<^verbatim>\<open>const prefix = `abi${sdkNumber}_0_0`\<close>.\<close>

definition versionPrefix :: "int \<Rightarrow> string" where
  "versionPrefix sdkNumber = ''abi'' @ number_toString sdkNumber @ ''_0_0''"




subsection \<open>Paths\<close>

text \<open>
  Node's \<^verbatim>\<open>path.join\<close> joins its non-empty arguments with a slash and then
  normalises the result. Every join of this program puts literal segments, a module
  name cut out of a real path, or a glob result below a directory that is already
  normalised, and normalisation changes none of these; it is left out.
  \<^verbatim>\<open>path.basename\<close> and \<^verbatim>\<open>path.dirname\<close> follow the POSIX
  implementation of Node: trailing slashes are ignored, the directory of a path without
  a slash is \<^verbatim>\<open>.\<close>.
\<close>

fun join_with :: "string \<Rightarrow> string list \<Rightarrow> string" where
  "join_with sep [] = []"
| "join_with sep [x] = x"
| "join_with sep (x # y # ys) = x @ sep @ join_with sep (y # ys)"

definition path_join :: "string list \<Rightarrow> string" where
  "path_join parts = join_with ''/'' (filter (\<lambda>p. p \<noteq> []) parts)"

definition is_slash :: "char \<Rightarrow> bool" where
  "is_slash c = (c = CHR ''/'')"

definition path_basename :: "string \<Rightarrow> string" where
  "path_basename p = rev (takeWhile (\<lambda>c. \<not> is_slash c) (dropWhile is_slash (rev p)))"

definition path_dirname :: "string \<Rightarrow> string" where
  "path_dirname p =
     (if p = [] then ''.''
      else let r = dropWhile (\<lambda>c. \<not> is_slash c) (dropWhile is_slash (rev p));
               e = length r - 1
           in if r = [] \<or> e = 0 then (if is_slash (hd p) then ''/'' else ''.'')
              else if is_slash (hd p) \<and> e = 1 then ''//''
              else take e p)"

text \<open>\<open>within d p\<close>: the path \<open>p\<close> is the directory \<open>d\<close> or lies below it.\<close>

definition within :: "string \<Rightarrow> string \<Rightarrow> bool" where
  "within d p = (p = d \<or> prefix (d @ ''/'') p)"

subsection \<open>The pattern of module discovery\<close>

text \<open>
  \<^verbatim>\<open>new RegExp(`${directory}/(.*)/android/build.gradle`, 'i')\<close> is a sequence of
  characters, a greedy group \<^verbatim>\<open>(.*)\<close>, and another sequence of characters. In the
  source of a regular expression a dot stands for any character but a line terminator,
  and with the flag \<^verbatim>\<open>i\<close> letters are compared in upper case. The directory is
  spliced into the source unescaped; the model reads its dots as dots of the pattern
  and every other character as itself (a directory with other metacharacters is
  outside the model). Characters are bytes: the letters that are folded are the ASCII
  letters, and the line terminators are the line feed and the carriage return.
\<close>

datatype atom = Lit char | AnyChar

definition canonicalize :: "char \<Rightarrow> char" where
  "canonicalize c =
     (if (97::nat) \<le> of_char c \<and> of_char c \<le> (122::nat) then char_of (of_char c - (32::nat)) else c)"

definition is_line_terminator :: "char \<Rightarrow> bool" where
  "is_line_terminator c = (c = CHR 0x0A \<or> c = CHR 0x0D)"

fun atom_matches :: "atom \<Rightarrow> char \<Rightarrow> bool" where
  "atom_matches (Lit a) c = (canonicalize a = canonicalize c)"
| "atom_matches AnyChar c = (\<not> is_line_terminator c)"

definition regexp_atoms :: "string \<Rightarrow> atom list" where
  "regexp_atoms source = map (\<lambda>c. if c = CHR ''.'' then AnyChar else Lit c) source"

text \<open>Matching a sequence of atoms at the head of the input; the rest is returned.\<close>

fun match_atoms :: "atom list \<Rightarrow> string \<Rightarrow> string option" where
  "match_atoms [] s = Some s"
| "match_atoms (a # as) [] = None"
| "match_atoms (a # as) (c # cs) = (if atom_matches a c then match_atoms as cs else None)"

text \<open>
  The group \<^verbatim>\<open>(.*)\<close> followed by \<open>post\<close>: the group takes as many characters
  as it can and gives them back one by one until \<open>post\<close> matches behind it.
\<close>

fun capture_star :: "atom list \<Rightarrow> string \<Rightarrow> string option" where
  "capture_star post [] = (if match_atoms post [] \<noteq> None then Some [] else None)"
| "capture_star post (c # cs) =
     (case (if atom_matches AnyChar c then capture_star post cs else None) of
        Some g \<Rightarrow> Some (c # g)
      | None \<Rightarrow> if match_atoms post (c # cs) \<noteq> None then Some [] else None)"

definition match_at :: "atom list \<Rightarrow> atom list \<Rightarrow> string \<Rightarrow> string option" where
  "match_at pre post s =
     (case match_atoms pre s of None \<Rightarrow> None | Some rest \<Rightarrow> capture_star post rest)"

text \<open>\<^verbatim>\<open>String.prototype.match\<close>: the leftmost position with a match; the result is group 1.\<close>

fun string_match :: "atom list \<Rightarrow> atom list \<Rightarrow> string \<Rightarrow> string option" where
  "string_match pre post [] = match_at pre post []"
| "string_match pre post (c # cs) =
     (case match_at pre post (c # cs) of
        Some g \<Rightarrow> Some g
      | None \<Rightarrow> string_match pre post cs)"

definition gradlePattern_match :: "string \<Rightarrow> string \<Rightarrow> string option" where
  "gradlePattern_match directory gradlePath =
     string_match (regexp_atoms (directory @ ''/'')) (regexp_atoms ''/android/build.gradle'') gradlePath"

text \<open>Lines 122 to 128: the reduction over the paths that the glob returned.\<close>

definition getVendoredModuleNames :: "string \<Rightarrow> string list \<Rightarrow> string list" where
  "getVendoredModuleNames directory vendoredGradlePaths =
     foldl (\<lambda>result gradlePath.
              case gradlePattern_match directory gradlePath of
                Some moduleName \<Rightarrow> result @ [moduleName]
              | None \<Rightarrow> result)
           [] vendoredGradlePaths"

subsection \<open>Transform rules\<close>

text \<open>
  The types of \<^verbatim>\<open>Transforms.types\<close>, as this file uses them. A rule finds a
  regular expression (kept as its source and flags) or a plain string, and replaces it
  by a template string or by the result of a function of the match and its groups.
  A content rule may be scoped by globs (\<open>paths\<close>).
\<close>

datatype pattern = RegExp string string | Plain string

datatype replacement = Template string | Replacer "string \<Rightarrow> string \<Rightarrow> string \<Rightarrow> string"

record FileTransform =
  paths :: "string list option"
  find_pattern :: pattern
  replaceWith :: replacement

text \<open>\<^verbatim>\<open>Required<FileTransforms>\<close>: both lists are there.\<close>

record FileTransforms =
  path :: "FileTransform list"
  content :: "FileTransform list"

text \<open>An entry of the per-module configuration: \<^verbatim>\<open>path?\<close> and \<^verbatim>\<open>content?\<close>.\<close>

record ModuleTransforms =
  optPath :: "FileTransform list option"
  optContent :: "FileTransform list option"

definition bs :: char where
  "bs = CHR 0x5C"

definition sq :: char where
  "sq = CHR 0x27"

text \<open>Lines 142 to 220. In the sources of the patterns \<open>bs\<close> is the backslash, \<open>sq\<close> the single quote.\<close>

definition baseTransformsFactory :: "string \<Rightarrow> FileTransforms" where
  \<open>baseTransformsFactory prefix' = \<lparr>
     path = [
       \<lparr> paths = None,
         find_pattern = RegExp ([bs] @ ''/java'' @ [bs] @ ''/'') [],
         replaceWith = Template (''/java/'' @ prefix' @ ''/'') \<rparr> ],
     content = [
       \<lparr> paths = Some [''*.{java,kt}''],
         find_pattern = RegExp (''(^package'' @ [bs] @ ''s+)(['' @ [bs] @ ''w.]+;?)'') ''m'',
         replaceWith = Template (''$1'' @ prefix' @ ''.$2'') \<rparr>,
       \<lparr> paths = Some [''*.{java,kt}''],
         find_pattern = RegExp (''('' @ [bs] @ ''bcom'' @ [bs] @ ''.facebook'' @ [bs]
           @ ''.(catalyst|csslayout|fbreact|hermes|perftest|quicklog|react|systrace|yoga|debug)''
           @ [bs] @ ''b)'') ''g'',
         replaceWith = Template (prefix' @ ''.$1'') \<rparr>,
       \<lparr> paths = Some [''*.{java,kt}''],
         find_pattern = RegExp ([bs] @ ''b((System|SoLoader)'' @ [bs] @ ''.loadLibrary'' @ [bs]
           @ ''("[^"]*)("'' @ [bs] @ '');?)'') ''g'',
         replaceWith = Template (''$1_'' @ prefix' @ ''$3'') \<rparr>,
       \<lparr> paths = Some [''*.{h,cpp}''],
         find_pattern = RegExp (''('' @ [bs] @ ''bkJavaDescriptor'' @ [bs] @ ''s*='' @ [bs] @ ''s*''
           @ [bs] @ ''n?'' @ [bs] @ ''s*"L)'') ''gm'',
         replaceWith = Template (''$1'' @ prefix' @ ''/'') \<rparr>,
       \<lparr> paths = Some [''build.gradle''],
         find_pattern = Plain (''implementation '' @ [sq] @ ''com.facebook.react:react-native:+'' @ [sq]),
         replaceWith = Template (
           ''implementation '' @ [sq] @ ''host.exp:reactandroid-'' @ prefix' @ '':1.0.0'' @ [sq]
           @ ''\<newline>''
           @ ''    compileOnly '' @ [sq] @ ''com.facebook.fbjni:fbjni:0.2.2'' @ [sq] @ ''\<newline>''
           @ ''    compileOnly '' @ [sq] @ ''com.facebook.yoga:proguard-annotations:1.19.0'' @ [sq] @ ''\<newline>''
           @ ''    compileOnly '' @ [sq] @ ''androidx.annotation:annotation:1.3.0'' @ [sq] @ ''\<newline>'') \<rparr>,
       \<lparr> paths = Some [''build.gradle''],
         find_pattern = Plain ''buildDir/react-native-0*/jni'',
         replaceWith = Template ''buildDir/reactandroid-abi*/jni'' \<rparr>,
       \<lparr> paths = Some [''build.gradle'', ''CMakeLists.txt''],
         find_pattern = RegExp ([bs] @ ''/react-native'' @ [bs] @ ''/'') ''g'',
         replaceWith = Template ''/versioned-react-native/'' \<rparr>,
       \<lparr> paths = Some [''build.gradle''],
         find_pattern = RegExp (''def rnAAR = fileTree.*'' @ [bs] @ ''*'' @ [bs] @ ''.aar.*'' @ [bs] @ '')'') ''g'',
         replaceWith = Template (''def rnAAR = fileTree("${rootDir}/versioned-abis").matching({ include "**/reactandroid-''
           @ prefix' @ ''/**/*.aar" })'') \<rparr>,
       \<lparr> paths = Some [''CMakeLists.txt''],
         find_pattern = RegExp (''(^set'' @ [bs] @ ''s*'' @ [bs] @ ''(PACKAGE_NAME'' @ [bs] @ ''s*['' @ [sq]
           @ ''"])('' @ [bs] @ ''w+)(['' @ [sq] @ ''"]'' @ [bs] @ ''))'') ''gm'',
         replaceWith = Template (''$1$2_'' @ prefix' @ ''$3'') \<rparr>,
       \<lparr> paths = Some [''CMakeLists.txt''],
         find_pattern = RegExp (''('' @ [bs] @ ''bfind_library'' @ [bs] @ ''('' @ [bs] @ ''n?'' @ [bs]
           @ ''s*[A-Z_]+'' @ [bs] @ ''n?'' @ [bs] @ ''s*)('' @ [bs] @ ''w+)'') ''gm'',
         replaceWith = Replacer (\<lambda>substring group1 libName.
           if libName \<in> set [''fbjni'', ''log''] then substring
           else group1 @ libName @ ''_'' @ prefix') \<rparr>,
       \<lparr> paths = Some [''AndroidManifest.xml''],
         find_pattern = RegExp (''('' @ [bs] @ ''bpackage=")(['' @ [bs] @ ''w.]+)(")'') [],
         replaceWith = Template (''$1'' @ prefix' @ ''.$2$3'') \<rparr> ] \<rparr>\<close>

subsection \<open>The file system, effects and errors\<close>

text \<open>
  The file system is the list of its files, each with its content; a directory is there
  when a file lies below it. The first entry for a path is the file at that path.
\<close>

type_synonym fs = "(string \<times> string) list"

record CopyFileOptions =
  sourceFile :: string
  sourceDirectory :: string
  targetDirectory :: string
  transforms :: FileTransforms

text \<open>
  The calls that change the world, in the order in which the program issues them
  (the calls that only read, the globs, the file search and \<^verbatim>\<open>existsSync\<close>, are not
  recorded). A \<open>Spawn\<close> carries the command, its arguments, the working directory and
  whether the process exited with status zero.
\<close>

datatype event =
    Remove string
  | CopyFileWithTransforms CopyFileOptions
  | Spawn string "string list" string bool
  | EnsureDir string
  | Copy string string
  | WriteFile string string

datatype error =
    FsError event
  | TransformError string
  | SpawnError string
  | AssertionError

record GlobOptions =
  cwd :: string
  nodir :: bool
  realpath :: bool

text \<open>
  What the program is given from outside this file: the constant \<open>ANDROID_DIR\<close>, the
  per-module configuration, the file search of \<^verbatim>\<open>Utils\<close>, the transform engine of
  \<^verbatim>\<open>Transforms\<close> (it returns a message when it rejects), the spawned process (a message
  when it exits with a non-zero status), the glob library, and \<open>fault\<close>, which says of
  each call into \<^verbatim>\<open>fs-extra\<close> whether the operating system makes it fail.
\<close>

record env =
  ANDROID_DIR :: string
  vendoredModulesTransforms :: "string \<Rightarrow> string \<Rightarrow> ModuleTransforms option"
  searchFilesAsync :: "string \<Rightarrow> string \<Rightarrow> fs \<Rightarrow> string list"
  copyFileWithTransformsAsync :: "CopyFileOptions \<Rightarrow> fs \<Rightarrow> string option \<times> fs"
  spawnAsync :: "string \<Rightarrow> string list \<Rightarrow> string \<Rightarrow> fs \<Rightarrow> string option \<times> fs"
  glob :: "string \<Rightarrow> GlobOptions \<Rightarrow> fs \<Rightarrow> string list"
  fault :: "event \<Rightarrow> fs \<Rightarrow> bool"

text \<open>
  An asynchronous function: from the file system to its result or the error it rejects
  with, the file system it leaves, and the calls it issued.
\<close>

type_synonym 'a io = "fs \<Rightarrow> (error + 'a) \<times> fs \<times> event list"

abbreviation result_of :: "(error + 'a) \<times> fs \<times> event list \<Rightarrow> error + 'a" where
  "result_of t \<equiv> fst t"

abbreviation fs_of :: "(error + 'a) \<times> fs \<times> event list \<Rightarrow> fs" where
  "fs_of t \<equiv> fst (snd t)"

abbreviation events_of :: "(error + 'a) \<times> fs \<times> event list \<Rightarrow> event list" where
  "events_of t \<equiv> snd (snd t)"

definition return_io :: "'a \<Rightarrow> 'a io" where
  "return_io x = (\<lambda>s. (Inr x, s, []))"

text \<open>\<^verbatim>\<open>await\<close>: a rejection ends the function, a value goes on to the rest of it.\<close>

definition bind_io :: "'a io \<Rightarrow> ('a \<Rightarrow> 'b io) \<Rightarrow> 'b io" where
  "bind_io m f = (\<lambda>s. case m s of
       (Inl e, s1, es1) \<Rightarrow> (Inl e, s1, es1)
     | (Inr x, s1, es1) \<Rightarrow> (case f x s1 of (r, s2, es2) \<Rightarrow> (r, s2, es1 @ es2)))"

text \<open>\<^verbatim>\<open>for (const x of xs) { await f(x) }\<close>\<close>

fun for_of :: "'a list \<Rightarrow> ('a \<Rightarrow> unit io) \<Rightarrow> unit io" where
  "for_of [] f = return_io ()"
| "for_of (x # xs) f = bind_io (f x) (\<lambda>_. for_of xs f)"

text \<open>
  \<^verbatim>\<open>await Promise.all(xs.map(f))\<close>: every call is started, whether or not another one
  rejects, and the first rejection is the result. The calls are taken one after the
  other, in the order of the list.
\<close>

fun promise_all :: "unit io list \<Rightarrow> unit io" where
  "promise_all [] = return_io ()"
| "promise_all (m # ms) = (\<lambda>s. case m s of (r1, s1, es1) \<Rightarrow>
       (case promise_all ms s1 of (r2, s2, es2) \<Rightarrow>
          ((case r1 of Inl e \<Rightarrow> Inl e | Inr _ \<Rightarrow> r2), s2, es1 @ es2)))"

definition assert_io :: "bool \<Rightarrow> unit io" where
  "assert_io b = (\<lambda>s. if b then (Inr (), s, []) else (Inl AssertionError, s, []))"

text \<open>
  The calls into \<^verbatim>\<open>fs-extra\<close>. A call that fails leaves the file system as it was.
  \<^verbatim>\<open>remove\<close> deletes a file or a directory with all that is below it, and does nothing
  when the path is not there. \<^verbatim>\<open>copy\<close> copies a file, or a directory with all that
  is below it, and fails when the source is not there. \<^verbatim>\<open>existsSync\<close> never throws.
\<close>

definition fs_remove :: "env \<Rightarrow> string \<Rightarrow> unit io" where
  "fs_remove E p = (\<lambda>s.
     if fault E (Remove p) s then (Inl (FsError (Remove p)), s, [Remove p])
     else (Inr (), filter (\<lambda>(q, c). \<not> within p q) s, [Remove p]))"

definition fs_existsSync :: "string \<Rightarrow> fs \<Rightarrow> bool" where
  "fs_existsSync p s = list_ex (\<lambda>(q, c). within p q) s"

definition fs_ensureDir :: "env \<Rightarrow> string \<Rightarrow> unit io" where
  "fs_ensureDir E p = (\<lambda>s.
     if fault E (EnsureDir p) s then (Inl (FsError (EnsureDir p)), s, [EnsureDir p])
     else (Inr (), s, [EnsureDir p]))"

definition fs_copy :: "env \<Rightarrow> string \<Rightarrow> string \<Rightarrow> unit io" where
  "fs_copy E src dst = (\<lambda>s.
     if fault E (Copy src dst) s \<or> \<not> fs_existsSync src s
     then (Inl (FsError (Copy src dst)), s, [Copy src dst])
     else (Inr (),
           foldr (\<lambda>(q, c) acc. AList.update (dst @ drop (length src) q) c acc)
                 (filter (\<lambda>(q, c). within src q) s) s,
           [Copy src dst]))"

definition fs_writeFile :: "env \<Rightarrow> string \<Rightarrow> string \<Rightarrow> unit io" where
  "fs_writeFile E p data = (\<lambda>s.
     if fault E (WriteFile p data) s then (Inl (FsError (WriteFile p data)), s, [WriteFile p data])
     else (Inr (), AList.update p data s, [WriteFile p data]))"

text \<open>The calls to the collaborators.\<close>

definition spawn_io :: "env \<Rightarrow> string \<Rightarrow> string list \<Rightarrow> string \<Rightarrow> unit io" where
  "spawn_io E command args dir = (\<lambda>s.
     case spawnAsync E command args dir s of
       (None, s1) \<Rightarrow> (Inr (), s1, [Spawn command args dir True])
     | (Some msg, s1) \<Rightarrow> (Inl (SpawnError msg), s1, [Spawn command args dir False]))"

definition copyFileWithTransforms_io :: "env \<Rightarrow> CopyFileOptions \<Rightarrow> unit io" where
  "copyFileWithTransforms_io E opts = (\<lambda>s.
     case copyFileWithTransformsAsync E opts s of
       (None, s1) \<Rightarrow> (Inr (), s1, [CopyFileWithTransforms opts])
     | (Some msg, s1) \<Rightarrow> (Inl (TransformError msg), s1, [CopyFileWithTransforms opts]))"

definition glob_io :: "env \<Rightarrow> string \<Rightarrow> GlobOptions \<Rightarrow> string list io" where
  "glob_io E pat opts = (\<lambda>s. (Inr (glob E pat opts s), s, []))"

definition searchFiles_io :: "env \<Rightarrow> string \<Rightarrow> string \<Rightarrow> string list io" where
  "searchFiles_io E root pat = (\<lambda>s. (Inr (searchFilesAsync E root pat s), s, []))"

subsection \<open>The program\<close>

text \<open>Line 15 and lines 225 to 227.\<close>

definition ANDROID_VENDORED_DIR :: "env \<Rightarrow> string" where
  "ANDROID_VENDORED_DIR E = path_join [ANDROID_DIR E, ''vendored'']"

definition vendoredDirectoryForSDK :: "env \<Rightarrow> int \<Rightarrow> string" where
  "vendoredDirectoryForSDK E sdkNumber =
     path_join [ANDROID_VENDORED_DIR E, ''sdk'' @ number_toString sdkNumber]"

text \<open>Lines 113 to 129.\<close>

definition getVendoredModuleNamesAsync :: "env \<Rightarrow> string \<Rightarrow> string list io" where
  "getVendoredModuleNamesAsync E directory =
     bind_io (glob_io E ''**/build.gradle'' \<lparr>cwd = directory, nodir = True, realpath = True\<rparr>)
       (\<lambda>vendoredGradlePaths. return_io (getVendoredModuleNames directory vendoredGradlePaths))"

text \<open>Lines 63 to 108. \<^verbatim>\<open>module.replace(/\//g, '_')\<close> turns every slash into an underscore.\<close>

definition moduleRootDir :: "env \<Rightarrow> int \<Rightarrow> string \<Rightarrow> string" where
  "moduleRootDir E sdkNumber module =
     path_join [ANDROID_DIR E, ''vendored'', ''sdk'' @ number_toString sdkNumber, module, ''android'']"

definition gradleTask :: "int \<Rightarrow> string \<Rightarrow> string" where
  "gradleTask sdkNumber module =
     '':vendored_sdk'' @ number_toString sdkNumber @ ''_''
       @ map (\<lambda>c. if c = CHR ''/'' then CHR ''_'' else c) module
       @ '':copyReleaseJniLibsProjectOnly''"

definition stageLibFile :: "env \<Rightarrow> string \<Rightarrow> string \<Rightarrow> string \<Rightarrow> unit io" where
  "stageLibFile E jniLibDir buildLibDir file =
     (let srcPath = path_join [buildLibDir, file];
          archName = path_basename (path_dirname file);
          dstPath = path_join [jniLibDir, archName, path_basename file]
      in bind_io (fs_ensureDir E (path_dirname dstPath)) (\<lambda>_. fs_copy E srcPath dstPath))"

definition maybePrebuildSharedLibsAsync :: "env \<Rightarrow> string \<Rightarrow> int \<Rightarrow> unit io" where
  "maybePrebuildSharedLibsAsync E module sdkNumber =
     (let root = moduleRootDir E sdkNumber module;
          cmakeFile = path_join [root, ''CMakeLists.txt'']
      in (\<lambda>s.
        if \<not> fs_existsSync cmakeFile s then return_io () s
        else
          bind_io (spawn_io E ''./gradlew'' [gradleTask sdkNumber module] (ANDROID_DIR E)) (\<lambda>_.
            let jniLibDir = path_join [root, ''src'', ''main'', ''jniLibs''];
                buildLibDir = path_join [root, ''build'', ''intermediates'', ''library_jni'', ''release'', ''jni'']
            in bind_io (glob_io E ''**/*.so'' \<lparr>cwd = buildLibDir, nodir = False, realpath = False\<rparr>) (\<lambda>libFiles.
               bind_io (assert_io (0 \<le> int (length libFiles))) (\<lambda>_.
               bind_io (promise_all (map (stageLibFile E jniLibDir buildLibDir) libFiles)) (\<lambda>_.
               bind_io (fs_writeFile E cmakeFile []) (\<lambda>_.
               fs_remove E (path_join [root, ''build''])))))) s))"

text \<open>Lines 20 to 58. \<open>versionVendoredModule\<close> is the body of the loop over the modules.\<close>

text \<open>\<^verbatim>\<open>moduleConfig?.path ?? []\<close> and \<^verbatim>\<open>moduleConfig?.content ?? []\<close>\<close>

definition overridePath :: "ModuleTransforms option \<Rightarrow> FileTransform list" where
  "overridePath moduleConfig =
     (case moduleConfig of None \<Rightarrow> [] | Some c \<Rightarrow> (case optPath c of None \<Rightarrow> [] | Some rules \<Rightarrow> rules))"

definition overrideContent :: "ModuleTransforms option \<Rightarrow> FileTransform list" where
  "overrideContent moduleConfig =
     (case moduleConfig of None \<Rightarrow> [] | Some c \<Rightarrow> (case optContent c of None \<Rightarrow> [] | Some rules \<Rightarrow> rules))"

definition moduleTransforms :: "FileTransforms \<Rightarrow> ModuleTransforms option \<Rightarrow> FileTransforms" where
  "moduleTransforms baseTransforms moduleConfig = \<lparr>
     path = path baseTransforms @ overridePath moduleConfig,
     content = content baseTransforms @ overrideContent moduleConfig \<rparr>"

definition versionVendoredModule ::
  "env \<Rightarrow> int \<Rightarrow> (string \<Rightarrow> ModuleTransforms option) \<Rightarrow> FileTransforms \<Rightarrow> string \<Rightarrow> string
     \<Rightarrow> string \<Rightarrow> unit io" where
  "versionVendoredModule E sdkNumber config baseTransforms unversionedDir versionedDir name =
     (let moduleConfig = config name;
          sourceDirectory' = path_join [unversionedDir, name];
          targetDirectory' = path_join [versionedDir, name]
      in bind_io (searchFiles_io E sourceDirectory' ''**'') (\<lambda>files.
         bind_io (fs_remove E targetDirectory') (\<lambda>_.
         bind_io (for_of files (\<lambda>sourceFile'.
                    copyFileWithTransforms_io E \<lparr>
                      sourceFile = sourceFile',
                      sourceDirectory = sourceDirectory',
                      targetDirectory = targetDirectory',
                      transforms = moduleTransforms baseTransforms moduleConfig \<rparr>)) (\<lambda>_.
         maybePrebuildSharedLibsAsync E name sdkNumber))))"

definition selectModules :: "string list \<Rightarrow> string list option \<Rightarrow> string list" where
  "selectModules vendoredModuleNames filterModules =
     (case filterModules of
        None \<Rightarrow> vendoredModuleNames
      | Some wanted \<Rightarrow> filter (\<lambda>name. name \<in> set wanted) vendoredModuleNames)"

definition unversionedDir :: "env \<Rightarrow> string" where
  "unversionedDir E = path_join [ANDROID_VENDORED_DIR E, ''unversioned'']"

definition versionVendoredModulesAsync :: "env \<Rightarrow> int \<Rightarrow> string list option \<Rightarrow> unit io" where
  "versionVendoredModulesAsync E sdkNumber filterModules =
     (let prefix' = versionPrefix sdkNumber;
          config = vendoredModulesTransforms E prefix';
          baseTransforms = baseTransformsFactory prefix';
          versionedDir = vendoredDirectoryForSDK E sdkNumber
      in bind_io (getVendoredModuleNamesAsync E (unversionedDir E)) (\<lambda>vendoredModuleNames.
         for_of (selectModules vendoredModuleNames filterModules)
                (versionVendoredModule E sdkNumber config baseTransforms (unversionedDir E) versionedDir)))"

text \<open>Lines 134 to 137.\<close>

definition removeVersionedVendoredModulesAsync :: "env \<Rightarrow> int \<Rightarrow> unit io" where
  "removeVersionedVendoredModulesAsync E sdkNumber = fs_remove E (vendoredDirectoryForSDK E sdkNumber)"

subsection \<open>Notions used in the statements\<close>

text \<open>The module names that a run finds (line 29) and those it processes (lines 30 to 34).\<close>

definition discoveredModules :: "env \<Rightarrow> fs \<Rightarrow> string list" where
  "discoveredModules E s =
     getVendoredModuleNames (unversionedDir E)
       (glob E ''**/build.gradle'' \<lparr>cwd = unversionedDir E, nodir = True, realpath = True\<rparr> s)"

definition processedModules :: "env \<Rightarrow> string list option \<Rightarrow> fs \<Rightarrow> string list" where
  "processedModules E filterModules s = selectModules (discoveredModules E s) filterModules"

text \<open>The target directory of a module (line 39).\<close>

definition targetDirectoryOf :: "env \<Rightarrow> int \<Rightarrow> string \<Rightarrow> string" where
  "targetDirectoryOf E sdkNumber name = path_join [vendoredDirectoryForSDK E sdkNumber, name]"

text \<open>\<open>emits P m\<close>: every call that \<open>m\<close> issues, from whatever file system, satisfies \<open>P\<close>.\<close>

definition emits :: "(event \<Rightarrow> bool) \<Rightarrow> 'a io \<Rightarrow> bool" where
  "emits P m = (\<forall>s. list_all P (events_of (m s)))"

text \<open>
  The calls of the prebuild of a module: the build of its Gradle project, and calls
  into \<^verbatim>\<open>fs-extra\<close> on paths at or below the module's \<^verbatim>\<open>android\<close> directory.
\<close>

definition prebuild_event :: "env \<Rightarrow> int \<Rightarrow> string \<Rightarrow> event \<Rightarrow> bool" where
  "prebuild_event E sdkNumber module e =
     (case e of
        Spawn command args dir ok \<Rightarrow>
          command = ''./gradlew'' \<and> args = [gradleTask sdkNumber module] \<and> dir = ANDROID_DIR E
      | CopyFileWithTransforms opts \<Rightarrow> False
      | Remove p \<Rightarrow> within (moduleRootDir E sdkNumber module) p
      | EnsureDir p \<Rightarrow> within (moduleRootDir E sdkNumber module) p
      | Copy src dst \<Rightarrow> within (moduleRootDir E sdkNumber module) dst
      | WriteFile p data \<Rightarrow> within (moduleRootDir E sdkNumber module) p)"

text \<open>The paths of the prebuild of a module (lines 64, 65, 82 to 90, 107) and of one library (lines 97 to 99).\<close>

definition cmakeFileOf :: "env \<Rightarrow> int \<Rightarrow> string \<Rightarrow> string" where
  "cmakeFileOf E sdkNumber module = path_join [moduleRootDir E sdkNumber module, ''CMakeLists.txt'']"

definition jniLibDirOf :: "env \<Rightarrow> int \<Rightarrow> string \<Rightarrow> string" where
  "jniLibDirOf E sdkNumber module = path_join [moduleRootDir E sdkNumber module, ''src'', ''main'', ''jniLibs'']"

definition buildLibDirOf :: "env \<Rightarrow> int \<Rightarrow> string \<Rightarrow> string" where
  "buildLibDirOf E sdkNumber module =
     path_join [moduleRootDir E sdkNumber module, ''build'', ''intermediates'', ''library_jni'', ''release'', ''jni'']"

definition buildDirOf :: "env \<Rightarrow> int \<Rightarrow> string \<Rightarrow> string" where
  "buildDirOf E sdkNumber module = path_join [moduleRootDir E sdkNumber module, ''build'']"


text \<open>The build of a module, the file system it leaves and the libraries then found (lines 72 to 93).\<close>

definition buildOf :: "env \<Rightarrow> int \<Rightarrow> string \<Rightarrow> fs \<Rightarrow> string option \<times> fs" where
  "buildOf E sdkNumber module s =
     spawnAsync E ''./gradlew'' [gradleTask sdkNumber module] (ANDROID_DIR E) s"

definition buildEvent :: "env \<Rightarrow> int \<Rightarrow> string \<Rightarrow> bool \<Rightarrow> event" where
  "buildEvent E sdkNumber module ok = Spawn ''./gradlew'' [gradleTask sdkNumber module] (ANDROID_DIR E) ok"

definition libFilesOf :: "env \<Rightarrow> int \<Rightarrow> string \<Rightarrow> fs \<Rightarrow> string list" where
  "libFilesOf E sdkNumber module s =
     glob E ''**/*.so'' \<lparr>cwd = buildLibDirOf E sdkNumber module, nodir = False, realpath = False\<rparr> s"



text \<open>The calls of the transform engine for a module (lines 45 to 53).\<close>

definition module_copy :: "env \<Rightarrow> (string \<Rightarrow> ModuleTransforms option) \<Rightarrow> FileTransforms \<Rightarrow> string \<Rightarrow> string
    \<Rightarrow> string \<Rightarrow> event \<Rightarrow> bool" where
  "module_copy E config baseTransforms udir vdir name e =
     (\<exists>opts. e = CopyFileWithTransforms opts
        \<and> sourceDirectory opts = path_join [udir, name]
        \<and> targetDirectory opts = path_join [vdir, name]
        \<and> transforms opts = moduleTransforms baseTransforms (config name))"

text \<open>
  \<open>removed_first cur es\<close>: in \<open>es\<close> every call of the transform engine writes into the
  directory that the latest removal removed, with nothing but such calls in between;
  \<open>cur\<close> is that directory at the start, if there is one.
\<close>

fun removed_first :: "string option \<Rightarrow> event list \<Rightarrow> bool" where
  "removed_first cur [] = True"
| "removed_first cur (Remove d # es) = removed_first (Some d) es"
| "removed_first cur (CopyFileWithTransforms opts # es) =
     (cur = Some (targetDirectory opts) \<and> removed_first cur es)"
| "removed_first cur (e # es) = removed_first None es"

text \<open>A call of the transform engine with the target directory \<open>d\<close>.\<close>

definition copies_into :: "string \<Rightarrow> event \<Rightarrow> bool" where
  "copies_into d e = (\<exists>opts. e = CopyFileWithTransforms opts \<and> targetDirectory opts = d)"

text \<open>A build that exited with a non-zero status.\<close>

definition is_failed_build :: "event \<Rightarrow> bool" where
  "is_failed_build e = (case e of Spawn command args dir ok \<Rightarrow> \<not> ok | _ \<Rightarrow> False)"

text \<open>
  \<open>build_abort E n t\<close>: in the outcome \<open>t\<close> a failed build can only be the last call; the
  outcome is then the rejection with the error of that build, of a module with a
  descriptor, and the file system is the one that the build left.
\<close>

definition build_abort :: "env \<Rightarrow> int \<Rightarrow> (error + 'a) \<times> fs \<times> event list \<Rightarrow> bool" where
  "build_abort E n t =
     (list_all (\<lambda>e. \<not> is_failed_build e) (butlast (events_of t)) \<and>
      (events_of t \<noteq> [] \<and> is_failed_build (last (events_of t)) \<longrightarrow>
         (\<exists>m s msg. fs_existsSync (cmakeFileOf E n m) s
            \<and> buildOf E n m s = (Some msg, fs_of t)
            \<and> result_of t = Inl (SpawnError msg)
            \<and> last (events_of t) = buildEvent E n m False)))"




text \<open>
  \<open>module_event E n name e\<close>: the call \<open>e\<close> is addressed to the module \<open>name\<close>: it is the
  build of its project, a call of the engine with its target directory, or a call into
  \<^verbatim>\<open>fs-extra\<close> on a path at or below its target directory.
\<close>

definition module_event :: "env \<Rightarrow> int \<Rightarrow> string \<Rightarrow> event \<Rightarrow> bool" where
  "module_event E sdkNumber name e =
     (case e of
        Spawn command args dir ok \<Rightarrow> e = buildEvent E sdkNumber name ok
      | CopyFileWithTransforms opts \<Rightarrow> targetDirectory opts = targetDirectoryOf E sdkNumber name
      | Remove p \<Rightarrow> within (targetDirectoryOf E sdkNumber name) p
      | EnsureDir p \<Rightarrow> within (targetDirectoryOf E sdkNumber name) p
      | Copy src dst \<Rightarrow> within (targetDirectoryOf E sdkNumber name) dst
      | WriteFile p data \<Rightarrow> within (targetDirectoryOf E sdkNumber name) p)"

text \<open>
  What is expected of the collaborators: the transform engine changes files only at or
  below the target directory it is given (section 4.3 of the specification: the
  destination is the rewritten relative path joined to the target directory), and the
  build of a module changes files only at or below the module's \<^verbatim>\<open>android\<close> directory.
\<close>

definition engine_confined :: "env \<Rightarrow> bool" where
  "engine_confined E =
     (\<forall>opts s p. \<not> within (targetDirectory opts) p \<longrightarrow>
        map_of (snd (copyFileWithTransformsAsync E opts s)) p = map_of s p)"

definition build_confined :: "env \<Rightarrow> int \<Rightarrow> string \<Rightarrow> bool" where
  "build_confined E sdkNumber name =
     (\<forall>s p. \<not> within (moduleRootDir E sdkNumber name) p \<longrightarrow>
        map_of (snd (buildOf E sdkNumber name s)) p = map_of s p)"

text \<open>\<open>preserves K m\<close>: \<open>m\<close> leaves every path that satisfies \<open>K\<close> as it is.\<close>

definition preserves :: "(string \<Rightarrow> bool) \<Rightarrow> 'a io \<Rightarrow> bool" where
  "preserves K m = (\<forall>s p. K p \<longrightarrow> map_of (fs_of (m s)) p = map_of s p)"

subsection \<open>An example\<close>

text \<open>
  Two modules, \<^verbatim>\<open>m\<close> with a native part and \<^verbatim>\<open>n\<close> without; an engine that copies
  each file to the same place below the target directory; a build that leaves one
  shared library; no failing call.
\<close>

definition demo_env :: env where
  "demo_env = \<lparr>
     ANDROID_DIR = ''/A'',
     vendoredModulesTransforms = (\<lambda>p. Map.empty),
     searchFilesAsync = (\<lambda>root pat s. map fst (filter (\<lambda>(q, c). within root q) s)),
     copyFileWithTransformsAsync = (\<lambda>opts s. (None,
        AList.update (targetDirectory opts @ ''/'' @ drop (length (sourceDirectory opts) + 1) (sourceFile opts))
          (case map_of s (sourceFile opts) of Some c \<Rightarrow> c | None \<Rightarrow> []) s)),
     spawnAsync = (\<lambda>command args dir s. (None,
        AList.update ''/A/vendored/sdk45/m/android/build/intermediates/library_jni/release/jni/arm64/libm.so'' ''ELF'' s)),
     glob = (\<lambda>pat opts s.
        if pat = ''**/build.gradle''
        then [''/A/vendored/unversioned/m/android/build.gradle'', ''/A/vendored/unversioned/n/android/build.gradle'']
        else [''arm64/libm.so'']),
     fault = (\<lambda>e s. False) \<rparr>"

definition demo_fs :: fs where
  "demo_fs = [(''/A/vendored/unversioned/m/android/build.gradle'', ''g''),
              (''/A/vendored/unversioned/m/android/CMakeLists.txt'', ''cmake''),
              (''/A/vendored/unversioned/n/android/build.gradle'', ''g2''),
              (''/A/vendored/sdk45/m/stale.txt'', ''old'')]"

text \<open>
  The file system of the example once the files of \<^verbatim>\<open>m\<close> are copied, and the same
  world with a build that leaves no library.
\<close>

definition demo_versioned_fs :: fs where
  "demo_versioned_fs =
     [(''/A/vendored/unversioned/m/android/build.gradle'', ''g''),
      (''/A/vendored/unversioned/m/android/CMakeLists.txt'', ''cmake''),
      (''/A/vendored/unversioned/n/android/build.gradle'', ''g2''),
      (''/A/vendored/sdk45/m/android/build.gradle'', ''g''),
      (''/A/vendored/sdk45/m/android/CMakeLists.txt'', ''cmake'')]"



definition demo_env_failing :: env where
  "demo_env_failing = demo_env \<lparr>
     spawnAsync := (\<lambda>command args dir s. (Some ''exit 1'',
        AList.update ''/A/vendored/sdk45/m/android/build/tmp.o'' ''obj'' s)) \<rparr>"

text \<open>
  A world with a module \<^verbatim>\<open>foo\<close> and a module \<^verbatim>\<open>foo/bar\<close> in a directory of \<^verbatim>\<open>foo\<close>,
  where \<^verbatim>\<open>foo/bar\<close> was versioned before and has a staged library.
\<close>

definition nested_env :: env where
  "nested_env = demo_env \<lparr>
     spawnAsync := (\<lambda>command args dir s. (None, s)),
     glob := (\<lambda>pat opts s.
        if pat = ''**/build.gradle''
        then [''/A/vendored/unversioned/foo/android/build.gradle'',
              ''/A/vendored/unversioned/foo/bar/android/build.gradle'']
        else []) \<rparr>"

definition nested_fs :: fs where
  "nested_fs = [(''/A/vendored/unversioned/foo/android/build.gradle'', ''g''),
                (''/A/vendored/unversioned/foo/bar/android/build.gradle'', ''g2''),
                (''/A/vendored/sdk45/foo/bar/android/src/main/jniLibs/arm64/libbar.so'', ''ELF'')]"

text \<open>The example with a file of \<^verbatim>\<open>n\<close> that an earlier run versioned.\<close>

definition demo_prev_fs :: fs where
  "demo_prev_fs = demo_fs @ [(''/A/vendored/sdk45/n/android/build.gradle'', ''versioned before'')]"

section \<open>Properties\<close>

subsection \<open>The version prefix\<close>










subsection \<open>Running asynchronous functions\<close>

lemma bind_io_Inl: "m s = (Inl e, s1, es1) \<Longrightarrow> bind_io m f s = (Inl e, s1, es1)"
  by (simp add: bind_io_def)

lemma bind_io_Inr:
  "m s = (Inr x, s1, es1) \<Longrightarrow> bind_io m f s = (result_of (f x s1), fs_of (f x s1), es1 @ events_of (f x s1))"
  by (simp add: bind_io_def split: prod.splits)

lemma bind_io_return: "bind_io (return_io x) f = f x"
  by (rule ext) (simp add: bind_io_def return_io_def split: prod.splits)

lemma bind_io_glob: "bind_io (glob_io E pat opts) f s = f (glob E pat opts s) s"
  by (simp add: bind_io_def glob_io_def split: prod.splits)

lemma bind_io_searchFiles: "bind_io (searchFiles_io E root pat) f s = f (searchFilesAsync E root pat s) s"
  by (simp add: bind_io_def searchFiles_io_def split: prod.splits)

lemma getVendoredModuleNamesAsync_eq:
  "getVendoredModuleNamesAsync E directory s =
     (Inr (getVendoredModuleNames directory
             (glob E ''**/build.gradle'' \<lparr>cwd = directory, nodir = True, realpath = True\<rparr> s)), s, [])"
  by (simp add: getVendoredModuleNamesAsync_def bind_io_glob return_io_def)

subsection \<open>Facts about paths\<close>

lemma join_with_eq_Nil: "join_with sep xs = [] \<longleftrightarrow> (xs = [] \<or> (sep = [] \<or> length xs = 1) \<and> (\<forall>x\<in>set xs. x = []))"
  by (induction sep xs rule: join_with.induct) auto

lemma join_with_append:
  "xs \<noteq> [] \<Longrightarrow> ys \<noteq> [] \<Longrightarrow> join_with sep (xs @ ys) = join_with sep xs @ sep @ join_with sep ys"
proof (induction sep xs rule: join_with.induct)
  case (2 sep x)
  then show ?case by (cases ys) auto
qed auto

lemma path_join_eq_Nil: "path_join xs = [] \<longleftrightarrow> (\<forall>x\<in>set xs. x = [])"
proof -
  have "join_with ''/'' zs = [] \<longleftrightarrow> zs = []" if "\<forall>z\<in>set zs. z \<noteq> []" for zs
    using that by (induction "''/''" zs rule: join_with.induct) auto
  then show ?thesis
    by (auto simp: path_join_def filter_empty_conv)
qed

lemma path_join_append:
  "path_join (xs @ ys) =
     (if path_join xs = [] then path_join ys
      else if path_join ys = [] then path_join xs
      else path_join xs @ ''/'' @ path_join ys)"
proof -
  let ?f = "filter (\<lambda>p. p \<noteq> [])"
  have e: "path_join zs = [] \<longleftrightarrow> ?f zs = []" for zs
    by (simp add: path_join_eq_Nil filter_empty_conv)
  show ?thesis
  proof (cases "?f xs = []")
    case True
    then show ?thesis using e by (simp add: path_join_def)
  next
    case False
    show ?thesis
    proof (cases "?f ys = []")
      case True
      then show ?thesis using False e by (simp add: path_join_def)
    next
      case ny: False
      then show ?thesis
        using False e by (simp add: path_join_def join_with_append)
    qed
  qed
qed

lemma path_join_single: "path_join [x] = x"
  by (simp add: path_join_def)

lemma path_join_nested: "path_join (path_join xs # ys) = path_join (xs @ ys)"
  using path_join_append [of "[path_join xs]" ys] path_join_append [of xs ys]
  by (simp add: path_join_single)

lemma within_refl: "within d d"
  by (simp add: within_def)

lemma within_sub: "within d (d @ CHR ''/'' # x)"
  by (simp add: within_def)

lemma within_trans: "within a b \<Longrightarrow> within b c \<Longrightarrow> within a c"
  by (auto simp: within_def prefix_def)

lemma within_path_join: "d \<noteq> [] \<Longrightarrow> within d (path_join (d # xs))"
  using path_join_append [of "[d]" xs] by (auto simp: path_join_single within_refl within_sub)

lemma targetDirectory_eq:
  "path_join [vendoredDirectoryForSDK E n, name] =
     path_join [ANDROID_DIR E, ''vendored'', ''sdk'' @ number_toString n, name]"
  by (simp add: vendoredDirectoryForSDK_def ANDROID_VENDORED_DIR_def path_join_nested)

lemma targetDirectory_not_Nil: "path_join [vendoredDirectoryForSDK E n, name] \<noteq> []"
  by (simp add: targetDirectory_eq path_join_eq_Nil)

lemma moduleRootDir_eq:
  "moduleRootDir E n name = path_join [vendoredDirectoryForSDK E n, name] @ ''/android''"
  using path_join_append [of "[ANDROID_DIR E, ''vendored'', ''sdk'' @ number_toString n, name]" "[''android'']"]
  by (simp add: moduleRootDir_def targetDirectory_eq path_join_eq_Nil path_join_single)

lemma moduleRootDir_within: "within (path_join [vendoredDirectoryForSDK E n, name]) (moduleRootDir E n name)"
  using within_sub [of _ "''android''"] by (simp add: moduleRootDir_eq)

lemma moduleRootDir_not_Nil: "moduleRootDir E n name \<noteq> []"
  by (simp add: moduleRootDir_eq)

subsection \<open>The calls that a function issues\<close>

lemma emits_return: "emits P (return_io x)"
  by (simp add: emits_def return_io_def)

lemma emits_bind: "emits P m \<Longrightarrow> (\<And>x. emits P (f x)) \<Longrightarrow> emits P (bind_io m f)"
  by (auto simp: emits_def bind_io_def split: prod.splits sum.splits)
    (metis snd_conv)+

lemma emits_for_of: "(\<And>x. x \<in> set xs \<Longrightarrow> emits P (f x)) \<Longrightarrow> emits P (for_of xs f)"
  by (induction xs) (auto intro: emits_return emits_bind)

lemma emits_promise_all: "(\<And>m. m \<in> set ms \<Longrightarrow> emits P m) \<Longrightarrow> emits P (promise_all ms)"
proof (induction ms)
  case Nil
  then show ?case by (simp add: emits_return)
next
  case (Cons m ms)
  have m: "emits P m" and ms: "emits P (promise_all ms)"
    using Cons by auto
  show ?case
    unfolding emits_def
  proof
    fix s
    obtain r1 s1 es1 where a: "m s = (r1, s1, es1)" by (cases "m s") auto
    obtain r2 s2 es2 where b: "promise_all ms s1 = (r2, s2, es2)" by (cases "promise_all ms s1") auto
    have "list_all P es1" using m a by (auto simp: emits_def dest: spec [of _ s])
    moreover have "list_all P es2" using ms b by (auto simp: emits_def dest: spec [of _ s1])
    ultimately show "list_all P (events_of (promise_all (m # ms) s))"
      using a b by simp
  qed
qed

lemma emits_assert: "emits P (assert_io b)"
  by (simp add: emits_def assert_io_def)

lemma emits_glob: "emits P (glob_io E pat opts)"
  by (simp add: emits_def glob_io_def)

lemma emits_searchFiles: "emits P (searchFiles_io E root pat)"
  by (simp add: emits_def searchFiles_io_def)

lemma emits_fs_remove: "P (Remove p) \<Longrightarrow> emits P (fs_remove E p)"
  by (simp add: emits_def fs_remove_def)

lemma emits_fs_ensureDir: "P (EnsureDir p) \<Longrightarrow> emits P (fs_ensureDir E p)"
  by (simp add: emits_def fs_ensureDir_def)

lemma emits_fs_copy: "P (Copy src dst) \<Longrightarrow> emits P (fs_copy E src dst)"
  by (simp add: emits_def fs_copy_def)

lemma emits_fs_writeFile: "P (WriteFile p data) \<Longrightarrow> emits P (fs_writeFile E p data)"
  by (simp add: emits_def fs_writeFile_def)

lemma emits_spawn:
  "P (Spawn command args dir True) \<Longrightarrow> P (Spawn command args dir False) \<Longrightarrow>
   emits P (spawn_io E command args dir)"
  by (simp add: emits_def spawn_io_def split: prod.splits option.splits)

lemma emits_copyFileWithTransforms:
  "P (CopyFileWithTransforms opts) \<Longrightarrow> emits P (copyFileWithTransforms_io E opts)"
  by (simp add: emits_def copyFileWithTransforms_io_def split: prod.splits option.splits)

lemma emits_mono: "emits P m \<Longrightarrow> (\<And>e. P e \<Longrightarrow> Q e) \<Longrightarrow> emits Q m"
  by (auto simp: emits_def list_all_iff)

lemma emitsD: "emits P m \<Longrightarrow> m s = (r, s1, es) \<Longrightarrow> list_all P es"
  by (auto simp: emits_def dest: spec [of _ s])



lemma path_basename_no_slash: "CHR ''/'' \<notin> set (path_basename p)"
  by (auto simp: path_basename_def is_slash_def dest: set_takeWhileD)

lemma path_dirname_segment:
  assumes "seg \<noteq> []" "CHR ''/'' \<notin> set seg" "2 \<le> length p"
  shows "path_dirname (p @ CHR ''/'' # seg) = p"
proof -
  have ns: "\<forall>c\<in>set (rev seg). \<not> is_slash c"
    using assms(2) by (auto simp: is_slash_def)
  obtain c cs where r: "rev seg = c # cs" "\<not> is_slash c"
    using assms(1) ns by (cases "rev seg") auto
  have 1: "dropWhile is_slash (rev (p @ CHR ''/'' # seg)) = rev seg @ CHR ''/'' # rev p"
    using r by simp
  have 2: "dropWhile (\<lambda>c. \<not> is_slash c) (rev seg @ CHR ''/'' # rev p) = CHR ''/'' # rev p"
  proof -
    have "dropWhile (\<lambda>c. \<not> is_slash c) (rev seg @ CHR ''/'' # rev p)
            = dropWhile (\<lambda>c. \<not> is_slash c) (CHR ''/'' # rev p)"
      using ns by (intro dropWhile_append2) auto
    then show ?thesis by (simp add: is_slash_def)
  qed
  have "p \<noteq> []"
    using assms(3) by auto
  then show ?thesis
    using assms(3) by (simp add: path_dirname_def 1 2 Let_def del: rev_append rev.simps)
qed

lemma stage_dst_within:
  assumes "root \<noteq> []"
  shows "within root (path_join [path_join [root, ''src'', ''main'', ''jniLibs''], a, b])"
proof -
  have "path_join [path_join [root, ''src'', ''main'', ''jniLibs''], a, b]
          = path_join (root # [''src'', ''main'', ''jniLibs'', a, b])"
    by (simp add: path_join_nested)
  then show ?thesis
    using within_path_join [OF assms] by simp
qed

lemma stage_dir_within:
  assumes "root \<noteq> []" "CHR ''/'' \<notin> set a" "CHR ''/'' \<notin> set b"
  shows "within root (path_dirname (path_join [path_join [root, ''src'', ''main'', ''jniLibs''], a, b]))"
proof -
  let ?j = "root @ ''/src/main/jniLibs''"
  have j: "path_join [root, ''src'', ''main'', ''jniLibs''] = ?j"
    using assms(1) by (simp add: path_join_def)
  have wj: "within root ?j"
    using within_sub [of root "''src/main/jniLibs''"] by simp
  consider "a = []" "b = []" | "a = []" "b \<noteq> []" | "a \<noteq> []" "b = []" | "a \<noteq> []" "b \<noteq> []"
    by blast
  then show ?thesis
  proof cases
    case 1
    have "path_dirname ((root @ ''/src/main'') @ CHR ''/'' # ''jniLibs'') = root @ ''/src/main''"
      by (rule path_dirname_segment) auto
    then have "path_dirname ?j = root @ ''/src/main''" by simp
    moreover have "within root (root @ ''/src/main'')"
      using within_sub [of root "''src/main''"] by simp
    ultimately show ?thesis using 1 j by (simp add: path_join_def)
  next
    case 2
    have "path_dirname (?j @ CHR ''/'' # b) = ?j"
      using 2 assms by (intro path_dirname_segment) auto
    then show ?thesis using 2 j wj by (simp add: path_join_def)
  next
    case 3
    have "path_dirname (?j @ CHR ''/'' # a) = ?j"
      using 3 assms by (intro path_dirname_segment) auto
    then show ?thesis using 3 j wj by (simp add: path_join_def)
  next
    case 4
    have "path_dirname ((?j @ CHR ''/'' # a) @ CHR ''/'' # b) = ?j @ CHR ''/'' # a"
      using 4 assms by (intro path_dirname_segment) auto
    moreover have "within root (?j @ CHR ''/'' # a)"
      using within_sub [of root "''src/main/jniLibs/'' @ a"] by simp
    ultimately show ?thesis using 4 j by (simp add: path_join_def)
  qed
qed

lemma emits_stageLibFile:
  assumes "root = moduleRootDir E n module"
  shows "emits (prebuild_event E n module)
           (stageLibFile E (path_join [root, ''src'', ''main'', ''jniLibs'']) buildLibDir file)"
  unfolding stageLibFile_def Let_def
proof (intro emits_bind emits_fs_ensureDir emits_fs_copy)
  show "prebuild_event E n module
     (EnsureDir (path_dirname (path_join
           [path_join [root, ''src'', ''main'', ''jniLibs''], path_basename (path_dirname file),
            path_basename file])))"
    using stage_dir_within [of root] assms
    by (simp add: prebuild_event_def moduleRootDir_not_Nil path_basename_no_slash)
next
  show "prebuild_event E n module
     (Copy (path_join [buildLibDir, file])
       (path_join [path_join [root, ''src'', ''main'', ''jniLibs''], path_basename (path_dirname file),
            path_basename file]))"
    using stage_dst_within [of root] assms
    by (simp add: prebuild_event_def moduleRootDir_not_Nil)
qed

lemma root_file_within: "root \<noteq> [] \<Longrightarrow> within root (path_join [root, x])"
  by (rule within_path_join)

lemma emits_maybePrebuild:
  "emits (prebuild_event E n module) (maybePrebuildSharedLibsAsync E module n)"
proof -
  let ?root = "moduleRootDir E n module"
  let ?P = "prebuild_event E n module"
  have rest: "emits ?P
     (bind_io (spawn_io E ''./gradlew'' [gradleTask n module] (ANDROID_DIR E)) (\<lambda>_.
        bind_io (glob_io E ''**/*.so'' \<lparr>cwd = path_join [?root, ''build'', ''intermediates'', ''library_jni'', ''release'', ''jni''], nodir = False, realpath = False\<rparr>) (\<lambda>libFiles.
        bind_io (assert_io (0 \<le> int (length libFiles))) (\<lambda>_.
        bind_io (promise_all (map (stageLibFile E (path_join [?root, ''src'', ''main'', ''jniLibs''])
            (path_join [?root, ''build'', ''intermediates'', ''library_jni'', ''release'', ''jni''])) libFiles)) (\<lambda>_.
        bind_io (fs_writeFile E (path_join [?root, ''CMakeLists.txt'']) []) (\<lambda>_.
        fs_remove E (path_join [?root, ''build''])))))))"
    by (intro emits_bind emits_spawn emits_glob emits_assert emits_promise_all emits_fs_writeFile
        emits_fs_remove)
      (auto simp: prebuild_event_def moduleRootDir_not_Nil intro!: root_file_within emits_stageLibFile)
  show ?thesis
    unfolding emits_def
  proof
    fix s
    show "list_all ?P (events_of (maybePrebuildSharedLibsAsync E module n s))"
      using rest [unfolded emits_def, rule_format, of s]
      by (simp add: maybePrebuildSharedLibsAsync_def Let_def return_io_def)
  qed
qed

subsection \<open>The run as a loop over the processed modules\<close>

lemma versionVendoredModulesAsync_eq:
  "versionVendoredModulesAsync E n filterModules s =
     for_of (processedModules E filterModules s)
       (versionVendoredModule E n (vendoredModulesTransforms E (versionPrefix n))
          (baseTransformsFactory (versionPrefix n)) (unversionedDir E) (vendoredDirectoryForSDK E n)) s"
  by (simp add: versionVendoredModulesAsync_def Let_def bind_io_Inr [OF getVendoredModuleNamesAsync_eq]
      processedModules_def discoveredModules_def)

subsection \<open>A module without a native build descriptor\<close>

text \<open>
  C6. For a module whose versioned tree has no \<^verbatim>\<open>CMakeLists.txt\<close> at its
  \<^verbatim>\<open>android\<close> root, the prebuild is a no-op and not an error: it returns normally,
  leaves the file system as it is, and issues no call at all, so no build is invoked,
  nothing is staged and no descriptor is written.
\<close>

theorem prebuild_without_descriptor:
  "\<not> fs_existsSync (cmakeFileOf E sdkNumber module) s \<Longrightarrow>
   maybePrebuildSharedLibsAsync E module sdkNumber s = (Inr (), s, [])"
  by (simp add: maybePrebuildSharedLibsAsync_def cmakeFileOf_def Let_def return_io_def)

theorem prebuild_without_descriptor_witness:
  "\<not> fs_existsSync (cmakeFileOf demo_env 45 ''n'') demo_fs \<and>
   maybePrebuildSharedLibsAsync demo_env ''n'' 45 demo_fs = (Inr (), demo_fs, [])"
proof -
  have h: "\<not> fs_existsSync (cmakeFileOf demo_env 45 ''n'') demo_fs"
    by code_simp
  show ?thesis
    using prebuild_without_descriptor [OF h] h by simp
qed

subsection \<open>An empty filter\<close>

text \<open>
  C10. With a filter that is an empty list (not \<^verbatim>\<open>null\<close>), no module is processed:
  the run returns normally, leaves the file system as it is and issues no call. With
  \<^verbatim>\<open>null\<close> the processed modules are all the discovered ones, and the run is the
  loop over them.
\<close>

theorem empty_filter_processes_nothing:
  "versionVendoredModulesAsync E sdkNumber (Some []) s = (Inr (), s, []) \<and>
   processedModules E (Some []) s = [] \<and>
   processedModules E None s = discoveredModules E s \<and>
   versionVendoredModulesAsync E sdkNumber None s =
     for_of (discoveredModules E s)
       (versionVendoredModule E sdkNumber (vendoredModulesTransforms E (versionPrefix sdkNumber))
          (baseTransformsFactory (versionPrefix sdkNumber)) (unversionedDir E)
          (vendoredDirectoryForSDK E sdkNumber)) s"
  by (simp add: versionVendoredModulesAsync_eq processedModules_def selectModules_def return_io_def)

theorem empty_filter_witness:
  "versionVendoredModulesAsync demo_env 45 (Some []) demo_fs = (Inr (), demo_fs, []) \<and>
   length (events_of (versionVendoredModulesAsync demo_env 45 None demo_fs)) = 10"
proof -
  have "discoveredModules demo_env demo_fs = [''m'', ''n'']"
    by code_simp
  moreover have "length (events_of (for_of [''m'', ''n'']
       (versionVendoredModule demo_env 45 (vendoredModulesTransforms demo_env (versionPrefix 45))
          (baseTransformsFactory (versionPrefix 45)) (unversionedDir demo_env)
          (vendoredDirectoryForSDK demo_env 45)) demo_fs)) = 10"
    by code_simp
  ultimately show ?thesis
    using empty_filter_processes_nothing [of demo_env 45 demo_fs] by simp
qed

subsection \<open>Errors that cannot occur\<close>








subsection \<open>The prebuild of a module with a native build descriptor\<close>

lemma assert_io_True: "assert_io True = return_io ()"
  by (simp add: assert_io_def return_io_def)

lemma bind_spawn_ok:
  "buildOf E n m s = (None, s1) \<Longrightarrow>
   bind_io (spawn_io E ''./gradlew'' [gradleTask n m] (ANDROID_DIR E)) f s
     = (result_of (f () s1), fs_of (f () s1), buildEvent E n m True # events_of (f () s1))"
  by (simp add: bind_io_def spawn_io_def buildOf_def buildEvent_def split: prod.splits)

lemma bind_spawn_fail:
  "buildOf E n m s = (Some msg, s1) \<Longrightarrow>
   bind_io (spawn_io E ''./gradlew'' [gradleTask n m] (ANDROID_DIR E)) f s
     = (Inl (SpawnError msg), s1, [buildEvent E n m False])"
  by (simp add: bind_io_def spawn_io_def buildOf_def buildEvent_def)

text \<open>What the prebuild does once the build has succeeded (lines 82 to 107).\<close>

lemma prebuild_unfold:
  "maybePrebuildSharedLibsAsync E m n s =
     (if \<not> fs_existsSync (cmakeFileOf E n m) s then (Inr (), s, [])
      else bind_io (spawn_io E ''./gradlew'' [gradleTask n m] (ANDROID_DIR E)) (\<lambda>_ s1.
             bind_io (promise_all (map (stageLibFile E (jniLibDirOf E n m) (buildLibDirOf E n m))
                        (libFilesOf E n m s1))) (\<lambda>_.
             bind_io (fs_writeFile E (cmakeFileOf E n m) []) (\<lambda>_.
             fs_remove E (buildDirOf E n m))) s1) s)"
proof (cases "fs_existsSync (cmakeFileOf E n m) s")
  case True
  then show ?thesis
    by (simp add: maybePrebuildSharedLibsAsync_def Let_def cmakeFileOf_def jniLibDirOf_def
        buildLibDirOf_def buildDirOf_def libFilesOf_def assert_io_True bind_io_return bind_io_glob [abs_def])
next
  case False
  then show ?thesis
    by (simp add: maybePrebuildSharedLibsAsync_def Let_def cmakeFileOf_def return_io_def)
qed

lemma prebuild_build_fails:
  assumes "fs_existsSync (cmakeFileOf E n m) s" "buildOf E n m s = (Some msg, s1)"
  shows "maybePrebuildSharedLibsAsync E m n s = (Inl (SpawnError msg), s1, [buildEvent E n m False])"
  using assms(1) by (simp add: prebuild_unfold bind_spawn_fail [OF assms(2)])

lemma prebuild_build_ok:
  assumes "fs_existsSync (cmakeFileOf E n m) s" "buildOf E n m s = (None, s1)"
    and "bind_io (promise_all (map (stageLibFile E (jniLibDirOf E n m) (buildLibDirOf E n m))
                        (libFilesOf E n m s1))) (\<lambda>_.
             bind_io (fs_writeFile E (cmakeFileOf E n m) []) (\<lambda>_.
             fs_remove E (buildDirOf E n m))) s1 = (r, s2, es)"
  shows "maybePrebuildSharedLibsAsync E m n s = (r, s2, buildEvent E n m True # es)"
  using assms(1,3) by (simp add: prebuild_unfold bind_spawn_ok [OF assms(2)])


subsection \<open>Staging\<close>




lemma emits_stageLibFile_gen:
  "(\<And>p. P (EnsureDir p)) \<Longrightarrow> (\<And>src dst. P (Copy src dst)) \<Longrightarrow> emits P (stageLibFile E j b file)"
  unfolding stageLibFile_def Let_def
  by (intro emits_bind emits_fs_ensureDir emits_fs_copy) auto


subsection \<open>The file system after a removal and after a write\<close>

lemma map_of_remove_outside:
  "\<not> within d k \<Longrightarrow> map_of (filter (\<lambda>(q, c). \<not> within d q) s) k = map_of s k"
  by (induction s) auto

lemma map_of_remove_inside:
  "within d k \<Longrightarrow> map_of (filter (\<lambda>(q, c). \<not> within d q) s) k = None"
  by (induction s) auto

lemma existsSync_after_remove: "\<not> fs_existsSync d (filter (\<lambda>(q, c). \<not> within d q) s)"
  by (auto simp: fs_existsSync_def list_ex_iff)

lemma remove_absent: "\<not> fs_existsSync d s \<Longrightarrow> filter (\<lambda>(q, c). \<not> within d q) s = s"
  by (auto simp: fs_existsSync_def list_ex_iff intro!: filter_True)





subsection \<open>The assertion on the number of libraries\<close>



subsection \<open>The calls of a module and of a run\<close>

lemma for_of_Nil_apply: "for_of [] f s = (Inr (), s, [])"
  by (simp add: return_io_def)

lemma bind_io_cases:
  obtains (rejects) e s1 es1 where "m s = (Inl e, s1, es1)" "bind_io m f s = (Inl e, s1, es1)"
  | (returns) x s1 es1 r s2 es2 where "m s = (Inr x, s1, es1)" "f x s1 = (r, s2, es2)"
      "bind_io m f s = (r, s2, es1 @ es2)"
proof -
  obtain r1 s1 es1 where a: "m s = (r1, s1, es1)" by (cases "m s") auto
  show ?thesis
  proof (cases r1)
    case (Inl e)
    then show ?thesis using a rejects by (simp add: bind_io_def)
  next
    case (Inr x)
    obtain r s2 es2 where b: "f x s1 = (r, s2, es2)" by (cases "f x s1") auto
    then show ?thesis using a Inr returns by (simp add: bind_io_def)
  qed
qed

text \<open>The calls of one module: the removal, then copies into its target directory, then the prebuild.\<close>

lemma module_events:
  assumes "versionVendoredModule E n config baseTransforms udir vdir name s = (r, s', es)"
  shows "\<exists>es2 es3. es = Remove (path_join [vdir, name]) # es2 @ es3
           \<and> list_all (module_copy E config baseTransforms udir vdir name) es2
           \<and> list_all (prebuild_event E n name) es3"
proof -
  let ?t = "path_join [vdir, name]"
  let ?files = "searchFilesAsync E (path_join [udir, name]) ''**'' s"
  let ?copy = "for_of ?files (\<lambda>sourceFile'.
                    copyFileWithTransforms_io E \<lparr>
                      sourceFile = sourceFile',
                      sourceDirectory = path_join [udir, name],
                      targetDirectory = ?t,
                      transforms = moduleTransforms baseTransforms (config name) \<rparr>)"
  let ?rest = "\<lambda>_ :: unit. bind_io ?copy (\<lambda>_. maybePrebuildSharedLibsAsync E name n)"
  have run: "versionVendoredModule E n config baseTransforms udir vdir name s
               = bind_io (fs_remove E ?t) ?rest s"
    by (simp add: versionVendoredModule_def Let_def bind_io_searchFiles)
  have ec: "emits (module_copy E config baseTransforms udir vdir name) ?copy"
    by (intro emits_for_of emits_copyFileWithTransforms) (simp add: module_copy_def)
  show ?thesis
  proof (cases rule: bind_io_cases [of "fs_remove E ?t" s ?rest])
    case (rejects e s1 es1)
    then have "es = Remove ?t # [] @ []"
      using assms run by (auto simp: fs_remove_def split: if_splits)
    moreover have "list_all (module_copy E config baseTransforms udir vdir name) []"
      "list_all (prebuild_event E n name) []"
      by simp_all
    ultimately show ?thesis by blast
  next
    case (returns x s1 es1 r1 s2 es2)
    then have e1: "es1 = [Remove ?t]"
      by (auto simp: fs_remove_def split: if_splits)
    have es: "es = Remove ?t # es2"
      using returns(3) assms run e1 by simp
    show ?thesis
    proof (cases rule: bind_io_cases [of ?copy s1 "\<lambda>_. maybePrebuildSharedLibsAsync E name n"])
      case (rejects e' s3 es3)
      then have "es2 = es3" using returns(2) by simp
      moreover have "list_all (module_copy E config baseTransforms udir vdir name) es3"
        using emitsD [OF ec rejects(1)] .
      ultimately have "es = Remove ?t # es3 @ []"
        "list_all (module_copy E config baseTransforms udir vdir name) es3"
        "list_all (prebuild_event E n name) []"
        using es by simp_all
      then show ?thesis by blast
    next
      case (returns y s3 es3 r4 s4 es4)
      then have "es2 = es3 @ es4" using \<open>?rest x s1 = (r1, s2, es2)\<close> by simp
      moreover have "list_all (module_copy E config baseTransforms udir vdir name) es3"
        using emitsD [OF ec returns(1)] .
      moreover have "list_all (prebuild_event E n name) es4"
        using emitsD [OF emits_maybePrebuild returns(2)] .
      ultimately show ?thesis using es by auto
    qed
  qed
qed

text \<open>A property of the calls of every round of a loop, kept by concatenation, holds of the loop.\<close>

lemma for_of_events:
  assumes "\<And>x s. x \<in> set xs \<Longrightarrow> Q (events_of (f x s))" "Q []" "\<And>a b. Q a \<Longrightarrow> Q b \<Longrightarrow> Q (a @ b)"
  shows "Q (events_of (for_of xs f s))"
  using assms(1)
proof (induction xs arbitrary: s)
  case Nil
  then show ?case using assms(2) by (simp add: return_io_def)
next
  case (Cons x xs)
  show ?case
  proof (cases rule: bind_io_cases [of "f x" s "\<lambda>_. for_of xs f"])
    case (rejects e s1 es1)
    then show ?thesis using Cons.prems [of x s] by simp
  next
    case (returns u s1 es1 r s2 es2)
    have "Q es1" using Cons.prems [of x s] returns(1) by simp
    moreover have "Q es2" using Cons.IH [of s1] Cons.prems returns(2) by simp
    ultimately show ?thesis using returns(3) assms(3) by simp
  qed
qed

lemma run_events:
  assumes "\<And>name s. name \<in> set (processedModules E filterModules s0) \<Longrightarrow>
             Q (events_of (versionVendoredModule E n (vendoredModulesTransforms E (versionPrefix n))
          (baseTransformsFactory (versionPrefix n)) (unversionedDir E) (vendoredDirectoryForSDK E n) name s))"
    "Q []" "\<And>a b. Q a \<Longrightarrow> Q b \<Longrightarrow> Q (a @ b)"
  shows "Q (events_of (versionVendoredModulesAsync E n filterModules s0))"
  unfolding versionVendoredModulesAsync_eq
  by (rule for_of_events) (use assms in auto)

lemma prebuild_event_not_copy: "prebuild_event E n name e \<Longrightarrow> e \<noteq> CopyFileWithTransforms opts"
  by (auto simp: prebuild_event_def)

subsection \<open>The rules given to the transform engine\<close>



subsection \<open>Removal before writing\<close>

lemma removed_first_no_copy:
  "list_all (\<lambda>e. \<forall>opts. e \<noteq> CopyFileWithTransforms opts) es \<Longrightarrow> removed_first cur es"
  by (induction cur es rule: removed_first.induct) auto

lemma removed_first_copies:
  "list_all (copies_into d) es \<Longrightarrow> removed_first (Some d) es' \<Longrightarrow> removed_first (Some d) (es @ es')"
  by (induction es) (auto simp: copies_into_def)

lemma removed_first_append:
  "removed_first cur es \<Longrightarrow> (\<And>cur'. removed_first cur' es') \<Longrightarrow> removed_first cur (es @ es')"
  by (induction cur es rule: removed_first.induct) auto

lemma removed_first_split:
  "removed_first cur es \<Longrightarrow> es = pre @ CopyFileWithTransforms opts # post \<Longrightarrow>
   (cur = Some (targetDirectory opts) \<and> list_all (copies_into (targetDirectory opts)) pre)
   \<or> (\<exists>pre1 mid. pre = pre1 @ Remove (targetDirectory opts) # mid
         \<and> list_all (copies_into (targetDirectory opts)) mid)"
proof (induction pre arbitrary: cur es)
  case Nil
  then show ?case by simp
next
  case (Cons e pre)
  let ?d = "targetDirectory opts"
  let ?rest = "pre @ CopyFileWithTransforms opts # post"
  have es: "es = e # ?rest" using Cons.prems(2) by simp
  show ?case
  proof (cases e)
    case (Remove d)
    then have "removed_first (Some d) ?rest" using Cons.prems(1) es by simp
    from Cons.IH [OF this refl]
    show ?thesis
    proof
      assume "Some d = Some ?d \<and> list_all (copies_into ?d) pre"
      then have "e # pre = [] @ Remove ?d # pre" "list_all (copies_into ?d) pre"
        using Remove by simp_all
      then show ?thesis by blast
    next
      assume "\<exists>pre1 mid. pre = pre1 @ Remove ?d # mid \<and> list_all (copies_into ?d) mid"
      then obtain pre1 mid where "pre = pre1 @ Remove ?d # mid" "list_all (copies_into ?d) mid"
        by blast
      then have "e # pre = (e # pre1) @ Remove ?d # mid" "list_all (copies_into ?d) mid"
        by simp_all
      then show ?thesis by blast
    qed
  next
    case (CopyFileWithTransforms o')
    then have c: "cur = Some (targetDirectory o')" and r: "removed_first cur ?rest"
      using Cons.prems(1) es by auto
    from Cons.IH [OF r refl]
    show ?thesis
    proof
      assume a: "cur = Some ?d \<and> list_all (copies_into ?d) pre"
      then have "copies_into ?d e"
        using c CopyFileWithTransforms by (simp add: copies_into_def)
      then show ?thesis using a by simp
    next
      assume "\<exists>pre1 mid. pre = pre1 @ Remove ?d # mid \<and> list_all (copies_into ?d) mid"
      then obtain pre1 mid where "pre = pre1 @ Remove ?d # mid" "list_all (copies_into ?d) mid"
        by blast
      then have "e # pre = (e # pre1) @ Remove ?d # mid" "list_all (copies_into ?d) mid"
        by simp_all
      then show ?thesis by blast
    qed
  next
    case (Spawn c a d ok)
    then have "removed_first None ?rest" using Cons.prems(1) es by simp
    from Cons.IH [OF this refl]
    obtain pre1 mid where "pre = pre1 @ Remove ?d # mid" "list_all (copies_into ?d) mid"
      by auto
    then have "e # pre = (e # pre1) @ Remove ?d # mid" "list_all (copies_into ?d) mid"
      by simp_all
    then show ?thesis by blast
  next
    case (EnsureDir p)
    then have "removed_first None ?rest" using Cons.prems(1) es by simp
    from Cons.IH [OF this refl]
    obtain pre1 mid where "pre = pre1 @ Remove ?d # mid" "list_all (copies_into ?d) mid"
      by auto
    then have "e # pre = (e # pre1) @ Remove ?d # mid" "list_all (copies_into ?d) mid"
      by simp_all
    then show ?thesis by blast
  next
    case (Copy src dst)
    then have "removed_first None ?rest" using Cons.prems(1) es by simp
    from Cons.IH [OF this refl]
    obtain pre1 mid where "pre = pre1 @ Remove ?d # mid" "list_all (copies_into ?d) mid"
      by auto
    then have "e # pre = (e # pre1) @ Remove ?d # mid" "list_all (copies_into ?d) mid"
      by simp_all
    then show ?thesis by blast
  next
    case (WriteFile p data)
    then have "removed_first None ?rest" using Cons.prems(1) es by simp
    from Cons.IH [OF this refl]
    obtain pre1 mid where "pre = pre1 @ Remove ?d # mid" "list_all (copies_into ?d) mid"
      by auto
    then have "e # pre = (e # pre1) @ Remove ?d # mid" "list_all (copies_into ?d) mid"
      by simp_all
    then show ?thesis by blast
  qed
qed

lemma module_removed_first:
  "removed_first cur (events_of (versionVendoredModule E n config baseTransforms udir vdir name s))"
proof -
  let ?X = "versionVendoredModule E n config baseTransforms udir vdir name s"
  let ?t = "path_join [vdir, name]"
  have "?X = (result_of ?X, fs_of ?X, events_of ?X)" by simp
  from module_events [OF this] obtain es2 es3 where
    es: "events_of ?X = Remove ?t # es2 @ es3"
    and c: "list_all (module_copy E config baseTransforms udir vdir name) es2"
    and p: "list_all (prebuild_event E n name) es3"
    by blast
  have "list_all (copies_into ?t) es2"
    using c by (auto simp: list_all_iff module_copy_def copies_into_def)
  moreover have "removed_first (Some ?t) es3"
    using p by (intro removed_first_no_copy) (auto simp: list_all_iff dest: prebuild_event_not_copy)
  ultimately show ?thesis
    unfolding es by (simp add: removed_first_copies)
qed

text \<open>
  C4. In a run, before any call of the transform engine that writes into a target
  directory, that directory was removed, and between the removal and the call there are
  only calls of the engine into the same directory. A removal that returns leaves
  nothing at or below the directory and changes nothing else; the removal of a directory
  that is not there changes nothing and is not an error (unless the operating system
  makes the call fail).
\<close>

theorem target_removed_before_written:
  "(versionVendoredModulesAsync E n filterModules s = (r, s', es) \<longrightarrow>
      es = pre @ CopyFileWithTransforms opts # post \<longrightarrow>
      (\<exists>pre1 mid. pre = pre1 @ Remove (targetDirectory opts) # mid
         \<and> list_all (copies_into (targetDirectory opts)) mid))
   \<and> (fs_remove E d t = (Inr (), t', es') \<longrightarrow>
        \<not> fs_existsSync d t' \<and> (\<forall>p. within d p \<longrightarrow> map_of t' p = None)
        \<and> (\<forall>p. \<not> within d p \<longrightarrow> map_of t' p = map_of t p))
   \<and> (\<not> fs_existsSync d t \<longrightarrow> \<not> fault E (Remove d) t \<longrightarrow> fs_remove E d t = (Inr (), t, [Remove d]))"
proof (intro conjI impI)
  assume run: "versionVendoredModulesAsync E n filterModules s = (r, s', es)"
    and es: "es = pre @ CopyFileWithTransforms opts # post"
  have "\<forall>cur. removed_first cur (events_of (versionVendoredModulesAsync E n filterModules s))"
    by (rule run_events) (auto simp: module_removed_first intro: removed_first_append)
  then have "removed_first None es"
    using run by simp
  from removed_first_split [OF this es]
  show "\<exists>pre1 mid. pre = pre1 @ Remove (targetDirectory opts) # mid
         \<and> list_all (copies_into (targetDirectory opts)) mid"
    by simp
next
  assume "fs_remove E d t = (Inr (), t', es')"
  then have t': "t' = filter (\<lambda>(q, c). \<not> within d q) t"
    by (auto simp: fs_remove_def split: if_splits)
  show "\<not> fs_existsSync d t'" "\<forall>p. within d p \<longrightarrow> map_of t' p = None"
    "\<forall>p. \<not> within d p \<longrightarrow> map_of t' p = map_of t p"
    unfolding t' by (simp_all add: existsSync_after_remove map_of_remove_inside map_of_remove_outside)
next
  assume "\<not> fs_existsSync d t" "\<not> fault E (Remove d) t"
  then show "fs_remove E d t = (Inr (), t, [Remove d])"
    by (simp add: fs_remove_def remove_absent)
qed

theorem target_removed_before_written_witness:
  "(\<exists>e opts post. events_of (versionVendoredModulesAsync demo_env 45 None demo_fs)
        = e # CopyFileWithTransforms opts # post
      \<and> e = Remove (targetDirectory opts))
   \<and> map_of demo_fs ''/A/vendored/sdk45/m/stale.txt'' = Some ''old''
   \<and> map_of (fs_of (fs_remove demo_env ''/A/vendored/sdk45/m'' demo_fs)) ''/A/vendored/sdk45/m/stale.txt'' = None
   \<and> fs_remove demo_env ''/A/vendored/sdk45/n'' demo_fs = (Inr (), demo_fs, [Remove ''/A/vendored/sdk45/n''])"
proof -
  let ?X = "versionVendoredModulesAsync demo_env 45 None demo_fs"
  let ?d = "''/A/vendored/sdk45/m''"
  have "case events_of ?X of e # CopyFileWithTransforms opts # es \<Rightarrow> True | _ \<Rightarrow> False"
    by code_simp
  then obtain e opts post where es: "events_of ?X = [e] @ CopyFileWithTransforms opts # post"
    by (auto split: list.splits event.splits)
  have h: "?X = (result_of ?X, fs_of ?X, events_of ?X)"
    by simp
  note t = target_removed_before_written [of demo_env 45 None demo_fs "result_of ?X" "fs_of ?X"
      "events_of ?X" "[e]" opts post]
  from t [THEN conjunct1, rule_format, OF h es]
  obtain pre1 mid where "[e] = pre1 @ Remove (targetDirectory opts) # mid"
    by blast
  then have e: "e = Remove (targetDirectory opts)"
    by (cases pre1) auto
  have f: "fault demo_env = (\<lambda>e s. False)"
    by (simp add: demo_env_def)
  have r: "fs_remove demo_env ?d demo_fs = (Inr (), fs_of (fs_remove demo_env ?d demo_fs), [Remove ?d])"
    by (simp add: fs_remove_def f)
  have w: "within ?d ''/A/vendored/sdk45/m/stale.txt''"
    by code_simp
  note t2 = target_removed_before_written [of demo_env 45 None demo_fs "result_of ?X" "fs_of ?X"
      "events_of ?X" "[e]" opts post ?d demo_fs "fs_of (fs_remove demo_env ?d demo_fs)" "[Remove ?d]"]
  from t2 [THEN conjunct2, THEN conjunct1, rule_format, OF r] w
  have gone: "map_of (fs_of (fs_remove demo_env ?d demo_fs)) ''/A/vendored/sdk45/m/stale.txt'' = None"
    by blast
  have ne: "\<not> fs_existsSync ''/A/vendored/sdk45/n'' demo_fs"
    by code_simp
  have nf: "\<not> fault demo_env (Remove ''/A/vendored/sdk45/n'') demo_fs"
    by (simp add: f)
  note t3 = target_removed_before_written [of demo_env 45 None demo_fs "result_of ?X" "fs_of ?X"
      "events_of ?X" "[e]" opts post "''/A/vendored/sdk45/n''" demo_fs]
  note noop = t3 [THEN conjunct2, THEN conjunct2, rule_format, OF ne nf]
  have old: "map_of demo_fs ''/A/vendored/sdk45/m/stale.txt'' = Some ''old''"
    by code_simp
  show ?thesis
    using es e gone noop old by simp
qed

subsection \<open>A build that fails\<close>

lemma build_abort_no_failed:
  "list_all (\<lambda>e. \<not> is_failed_build e) es \<Longrightarrow> build_abort E n (r, s, es)"
  by (cases es rule: rev_cases) (auto simp: build_abort_def)

lemma build_abort_no_failed':
  "list_all (\<lambda>e. \<not> is_failed_build e) (events_of t) \<Longrightarrow> build_abort E n t"
  using build_abort_no_failed [of "events_of t" E n "result_of t" "fs_of t"] by simp

lemma build_abort_Inr:
  "build_abort E n (Inr x, s, es) \<Longrightarrow> list_all (\<lambda>e. \<not> is_failed_build e) es"
  by (cases es rule: rev_cases) (auto simp: build_abort_def)

lemma build_abort_bind:
  assumes "\<And>s. build_abort E n (m s)" "\<And>x s. build_abort E n (f x s)"
  shows "build_abort E n (bind_io m f s)"
proof (cases rule: bind_io_cases [of m s f])
  case (rejects e s1 es1)
  then show ?thesis
    using assms(1) [of s] by (simp add: build_abort_def)
next
  case (returns x s1 es1 r s2 es2)
  have nf: "list_all (\<lambda>e. \<not> is_failed_build e) es1"
    using assms(1) [of s] returns(1) by (auto intro: build_abort_Inr)
  have f: "build_abort E n (r, s2, es2)"
    using assms(2) [of x s1] returns(2) by simp
  show ?thesis
  proof (cases "es2 = []")
    case True
    then show ?thesis
      using returns(3) nf by (simp add: build_abort_no_failed)
  next
    case False
    then show ?thesis
      using returns(3) nf f by (simp add: build_abort_def butlast_append)
  qed
qed

lemma build_abort_for_of:
  assumes "\<And>x s. build_abort E n (f x s)"
  shows "build_abort E n (for_of xs f s)"
proof (induction xs arbitrary: s)
  case Nil
  then show ?case by (simp add: return_io_def build_abort_def)
next
  case (Cons x xs)
  show ?case
    unfolding for_of.simps
    by (rule build_abort_bind) (use assms Cons.IH in auto)
qed

lemma build_abort_emits:
  "emits (\<lambda>e. \<not> is_failed_build e) m \<Longrightarrow> build_abort E n (m s)"
  by (intro build_abort_no_failed') (simp add: emits_def)

lemma build_abort_prebuild: "build_abort E n (maybePrebuildSharedLibsAsync E m n s)"
proof (cases "fs_existsSync (cmakeFileOf E n m) s")
  case False
  then show ?thesis
    by (simp add: prebuild_unfold build_abort_def)
next
  case True
  obtain o1 s1 where b: "buildOf E n m s = (o1, s1)"
    by (cases "buildOf E n m s") auto
  show ?thesis
  proof (cases o1)
    case (Some msg)
    then show ?thesis
      using prebuild_build_fails [OF True b [unfolded Some]] True b
      by (auto simp: build_abort_def buildEvent_def is_failed_build_def)
  next
    case None
    let ?F = "bind_io (promise_all (map (stageLibFile E (jniLibDirOf E n m) (buildLibDirOf E n m))
                        (libFilesOf E n m s1))) (\<lambda>_.
             bind_io (fs_writeFile E (cmakeFileOf E n m) []) (\<lambda>_.
             fs_remove E (buildDirOf E n m)))"
    have "emits (\<lambda>e. \<not> is_failed_build e) ?F"
      by (intro emits_bind emits_promise_all emits_fs_writeFile emits_fs_remove)
        (auto simp: is_failed_build_def intro!: emits_stageLibFile_gen)
    then have "list_all (\<lambda>e. \<not> is_failed_build e) (buildEvent E n m True # events_of (?F s1))"
      by (simp add: emits_def is_failed_build_def buildEvent_def)
    moreover have "?F s1 = (result_of (?F s1), fs_of (?F s1), events_of (?F s1))"
      by simp
    from prebuild_build_ok [OF True b [unfolded None] this]
    have "events_of (maybePrebuildSharedLibsAsync E m n s) = buildEvent E n m True # events_of (?F s1)"
      by simp
    ultimately show ?thesis
      by (intro build_abort_no_failed') simp
  qed
qed

lemma build_abort_module:
  "build_abort E n (versionVendoredModule E n config baseTransforms udir vdir name s)"
  unfolding versionVendoredModule_def Let_def
  by (intro build_abort_bind build_abort_for_of build_abort_prebuild build_abort_emits
      emits_searchFiles emits_fs_remove emits_copyFileWithTransforms)
    (simp_all add: is_failed_build_def)

lemma build_abort_run: "build_abort E n (versionVendoredModulesAsync E n filterModules s)"
  unfolding versionVendoredModulesAsync_eq
  by (intro build_abort_for_of build_abort_module)

text \<open>
  C3. When the build of a module fails, the prebuild rejects with the error of the
  build, having issued no other call: nothing is staged, the descriptor is not written,
  and the file system is the one the build left. In a run, a failed build is the last
  call: the run rejects with the error of that build and its final file system is the
  one that build left, so the files already written for the module are still there.
\<close>

theorem build_failure_aborts:
  "(fs_existsSync (cmakeFileOf E n m) s \<longrightarrow> buildOf E n m s = (Some msg, s1) \<longrightarrow>
      maybePrebuildSharedLibsAsync E m n s = (Inl (SpawnError msg), s1, [buildEvent E n m False]))
   \<and> (versionVendoredModulesAsync E n filterModules s0 = (r, s', es) \<longrightarrow>
        es = pre @ Spawn command args dir False # post \<longrightarrow>
        post = [] \<and>
        (\<exists>m' t msg'. fs_existsSync (cmakeFileOf E n m') t
            \<and> buildOf E n m' t = (Some msg', s')
            \<and> r = Inl (SpawnError msg')
            \<and> Spawn command args dir False = buildEvent E n m' False))"
proof (intro conjI impI)
  assume "fs_existsSync (cmakeFileOf E n m) s" "buildOf E n m s = (Some msg, s1)"
  then show "maybePrebuildSharedLibsAsync E m n s = (Inl (SpawnError msg), s1, [buildEvent E n m False])"
    by (rule prebuild_build_fails)
next
  assume run: "versionVendoredModulesAsync E n filterModules s0 = (r, s', es)"
    and es: "es = pre @ Spawn command args dir False # post"
  have ba: "build_abort E n (r, s', es)"
    using build_abort_run [of E n filterModules s0] run by simp
  have f: "is_failed_build (Spawn command args dir False)"
    by (simp add: is_failed_build_def)
  show post: "post = []"
  proof (rule ccontr)
    assume "post \<noteq> []"
    then have "Spawn command args dir False \<in> set (butlast es)"
      unfolding es by (simp add: butlast_append)
    then show False
      using ba f by (auto simp: build_abort_def list_all_iff)
  qed
  then have "es \<noteq> []" "last es = Spawn command args dir False"
    using es by simp_all
  then show "\<exists>m' t msg'. fs_existsSync (cmakeFileOf E n m') t
            \<and> buildOf E n m' t = (Some msg', s')
            \<and> r = Inl (SpawnError msg')
            \<and> Spawn command args dir False = buildEvent E n m' False"
    using ba f by (auto simp: build_abort_def)
qed

theorem build_failure_aborts_witness:
  "fs_existsSync (cmakeFileOf demo_env_failing 45 ''m'') demo_versioned_fs
   \<and> maybePrebuildSharedLibsAsync demo_env_failing ''m'' 45 demo_versioned_fs =
       (Inl (SpawnError ''exit 1''),
        snd (buildOf demo_env_failing 45 ''m'' demo_versioned_fs),
        [buildEvent demo_env_failing 45 ''m'' False])
   \<and> map_of (snd (buildOf demo_env_failing 45 ''m'' demo_versioned_fs))
        (cmakeFileOf demo_env_failing 45 ''m'') = Some ''cmake''
   \<and> (\<exists>msg. result_of (versionVendoredModulesAsync demo_env_failing 45 None demo_fs) = Inl (SpawnError msg))
   \<and> map_of (fs_of (versionVendoredModulesAsync demo_env_failing 45 None demo_fs))
        ''/A/vendored/sdk45/m/android/CMakeLists.txt'' = Some ''cmake''"
proof -
  let ?X = "versionVendoredModulesAsync demo_env_failing 45 None demo_fs"
  have ex: "fs_existsSync (cmakeFileOf demo_env_failing 45 ''m'') demo_versioned_fs"
    by code_simp
  have b: "buildOf demo_env_failing 45 ''m'' demo_versioned_fs
             = (Some ''exit 1'', snd (buildOf demo_env_failing 45 ''m'' demo_versioned_fs))"
    by code_simp
  note t = build_failure_aborts [of demo_env_failing 45 "''m''" demo_versioned_fs "''exit 1''"
      "snd (buildOf demo_env_failing 45 ''m'' demo_versioned_fs)" None demo_fs
      "result_of ?X" "fs_of ?X" "events_of ?X"]
  note one = t [THEN conjunct1, rule_format, OF ex b]
  have kept: "map_of (snd (buildOf demo_env_failing 45 ''m'' demo_versioned_fs))
        (cmakeFileOf demo_env_failing 45 ''m'') = Some ''cmake''"
    by code_simp
  have "case rev (events_of ?X) of Spawn c a d ok # es \<Rightarrow> \<not> ok | _ \<Rightarrow> False"
    by code_simp
  then obtain c a d es where "rev (events_of ?X) = Spawn c a d False # es"
    by (auto split: list.splits event.splits)
  then have es: "events_of ?X = rev es @ Spawn c a d False # []"
    by (simp add: rev_eq_Cons_iff)
  have h: "?X = (result_of ?X, fs_of ?X, events_of ?X)"
    by simp
  from t [THEN conjunct2, rule_format, OF h es]
  have two: "\<exists>msg. result_of ?X = Inl (SpawnError msg)"
    by blast
  have final: "map_of (fs_of ?X) ''/A/vendored/sdk45/m/android/CMakeLists.txt'' = Some ''cmake''"
    by code_simp
  show ?thesis
    using ex one kept two final by blast
qed

subsection \<open>Module discovery\<close>





















subsection \<open>What a run leaves untouched\<close>

lemma preserves_return: "preserves K (return_io x)"
  by (simp add: preserves_def return_io_def)

lemma preserves_bind:
  assumes "preserves K m" "\<And>x. preserves K (f x)"
  shows "preserves K (bind_io m f)"
  unfolding preserves_def
proof (intro allI impI)
  fix s p
  assume K: "K p"
  show "map_of (fs_of (bind_io m f s)) p = map_of s p"
  proof (cases rule: bind_io_cases [of m s f])
    case (rejects e s1 es1)
    then show ?thesis using assms(1) K by (auto simp: preserves_def dest!: spec [of _ s])
  next
    case (returns x s1 es1 r s2 es2)
    have "map_of s1 p = map_of s p"
      using assms(1) K returns(1) by (auto simp: preserves_def dest!: spec [of _ s])
    moreover have "map_of s2 p = map_of s1 p"
      using assms(2) [of x] K returns(2) by (auto simp: preserves_def dest!: spec [of _ s1])
    ultimately show ?thesis using returns(3) by simp
  qed
qed

lemma preserves_for_of: "(\<And>x. x \<in> set xs \<Longrightarrow> preserves K (f x)) \<Longrightarrow> preserves K (for_of xs f)"
  by (induction xs) (auto intro: preserves_return preserves_bind)

lemma preserves_promise_all:
  "(\<And>m. m \<in> set ms \<Longrightarrow> preserves K m) \<Longrightarrow> preserves K (promise_all ms)"
proof (induction ms)
  case Nil
  then show ?case by (simp add: preserves_return)
next
  case (Cons m ms)
  have m: "preserves K m" and ms: "preserves K (promise_all ms)"
    using Cons by auto
  show ?case
    unfolding preserves_def
  proof (intro allI impI)
    fix s p
    assume K: "K p"
    obtain r1 s1 es1 where a: "m s = (r1, s1, es1)" by (cases "m s") auto
    obtain r2 s2 es2 where b: "promise_all ms s1 = (r2, s2, es2)" by (cases "promise_all ms s1") auto
    have "map_of s1 p = map_of s p"
      using m K a by (auto simp: preserves_def dest!: spec [of _ s])
    moreover have "map_of s2 p = map_of s1 p"
      using ms K b by (auto simp: preserves_def dest!: spec [of _ s1])
    ultimately show "map_of (fs_of (promise_all (m # ms) s)) p = map_of s p"
      using a b by simp
  qed
qed

lemma preserves_mono: "preserves K' m \<Longrightarrow> (\<And>p. K p \<Longrightarrow> K' p) \<Longrightarrow> preserves K m"
  by (auto simp: preserves_def)

lemma preserves_reads:
  "preserves K (assert_io b)" "preserves K (glob_io E pat opts)" "preserves K (searchFiles_io E root pat)"
  "preserves K (fs_ensureDir E d)"
  by (simp_all add: preserves_def assert_io_def glob_io_def searchFiles_io_def fs_ensureDir_def)

lemma preserves_fs_remove: "(\<And>p. K p \<Longrightarrow> \<not> within d p) \<Longrightarrow> preserves K (fs_remove E d)"
  by (auto simp: preserves_def fs_remove_def map_of_remove_outside)

lemma preserves_fs_writeFile: "\<not> K f \<Longrightarrow> preserves K (fs_writeFile E f data)"
  by (auto simp: preserves_def fs_writeFile_def update_conv')

lemma within_copy_dst: "within src q \<Longrightarrow> within dst (dst @ drop (length src) q)"
  by (auto simp: within_def prefix_def)

lemma map_of_copy_outside:
  assumes "\<not> within dst p" "\<forall>(q, c) \<in> set xs. within src q"
  shows "map_of (foldr (\<lambda>(q, c) acc. AList.update (dst @ drop (length src) q) c acc) xs s) p = map_of s p"
  using assms(2)
proof (induction xs)
  case Nil
  then show ?case by simp
next
  case (Cons x xs)
  obtain q c where x: "x = (q, c)" by (cases x)
  then have "within src q" using Cons.prems by simp
  then have "dst @ drop (length src) q \<noteq> p"
    using within_copy_dst [of src q dst] assms(1) by auto
  then show ?case
    using Cons x by (simp add: update_conv')
qed

lemma preserves_fs_copy: "(\<And>p. K p \<Longrightarrow> \<not> within dst p) \<Longrightarrow> preserves K (fs_copy E src dst)"
  by (auto simp: preserves_def fs_copy_def intro!: map_of_copy_outside)

lemma preserves_spawn:
  "(\<And>s p. K p \<Longrightarrow> map_of (snd (spawnAsync E command args dir s)) p = map_of s p) \<Longrightarrow>
   preserves K (spawn_io E command args dir)"
  by (auto simp: preserves_def spawn_io_def split: prod.splits option.splits)
     (metis snd_conv)+

lemma preserves_engine:
  "(\<And>s p. K p \<Longrightarrow> map_of (snd (copyFileWithTransformsAsync E opts s)) p = map_of s p) \<Longrightarrow>
   preserves K (copyFileWithTransforms_io E opts)"
  by (auto simp: preserves_def copyFileWithTransforms_io_def split: prod.splits option.splits)
     (metis snd_conv)+


lemma outside_trans: "within a b \<Longrightarrow> \<not> within a p \<Longrightarrow> \<not> within b p"
  using within_trans by blast

lemma preserves_stageLibFile:
  "preserves (\<lambda>p. \<not> within (moduleRootDir E n name) p)
     (stageLibFile E (path_join [moduleRootDir E n name, ''src'', ''main'', ''jniLibs'']) buildLibDir file)"
  unfolding stageLibFile_def Let_def
  by (intro preserves_bind preserves_reads preserves_fs_copy)
     (rule outside_trans [OF stage_dst_within [OF moduleRootDir_not_Nil]])

lemma preserves_maybePrebuild:
  assumes "build_confined E n name"
  shows "preserves (\<lambda>p. \<not> within (moduleRootDir E n name) p) (maybePrebuildSharedLibsAsync E name n)"
proof -
  let ?root = "moduleRootDir E n name"
  let ?K = "\<lambda>p. \<not> within ?root p"
  have w: "within ?root (path_join [?root, x])" for x
    by (rule within_path_join [OF moduleRootDir_not_Nil])
  have rest: "preserves ?K
     (bind_io (spawn_io E ''./gradlew'' [gradleTask n name] (ANDROID_DIR E)) (\<lambda>_.
        bind_io (glob_io E ''**/*.so'' \<lparr>cwd = path_join [?root, ''build'', ''intermediates'', ''library_jni'', ''release'', ''jni''], nodir = False, realpath = False\<rparr>) (\<lambda>libFiles.
        bind_io (assert_io (0 \<le> int (length libFiles))) (\<lambda>_.
        bind_io (promise_all (map (stageLibFile E (path_join [?root, ''src'', ''main'', ''jniLibs''])
            (path_join [?root, ''build'', ''intermediates'', ''library_jni'', ''release'', ''jni''])) libFiles)) (\<lambda>_.
        bind_io (fs_writeFile E (path_join [?root, ''CMakeLists.txt'']) []) (\<lambda>_.
        fs_remove E (path_join [?root, ''build''])))))))"
  proof (intro preserves_bind preserves_reads preserves_promise_all preserves_fs_writeFile
      preserves_fs_remove preserves_spawn)
    fix s p
    assume "\<not> within ?root p"
    then show "map_of (snd (spawnAsync E ''./gradlew'' [gradleTask n name] (ANDROID_DIR E) s)) p = map_of s p"
      using assms by (simp add: build_confined_def buildOf_def)
  next
    fix libFiles m
    assume "m \<in> set (map (stageLibFile E (path_join [?root, ''src'', ''main'', ''jniLibs''])
            (path_join [?root, ''build'', ''intermediates'', ''library_jni'', ''release'', ''jni''])) libFiles)"
    then show "preserves ?K m"
      by (auto simp: preserves_stageLibFile)
  next
    show "\<not> \<not> within ?root (path_join [?root, ''CMakeLists.txt''])"
      using w by simp
  next
    fix p
    assume "\<not> within ?root p"
    then show "\<not> within (path_join [?root, ''build'']) p"
      by (rule outside_trans [OF w])
  qed
  show ?thesis
    unfolding preserves_def
  proof (intro allI impI)
    fix s p
    assume "\<not> within ?root p"
    then show "map_of (fs_of (maybePrebuildSharedLibsAsync E name n s)) p = map_of s p"
      using rest [unfolded preserves_def, rule_format, of p s]
      by (simp add: maybePrebuildSharedLibsAsync_def Let_def return_io_def)
  qed
qed

lemma moduleRootDir_within_target: "within (targetDirectoryOf E n name) (moduleRootDir E n name)"
  by (simp add: targetDirectoryOf_def moduleRootDir_within)

lemma preserves_module:
  assumes "engine_confined E" "build_confined E n name"
  shows "preserves (\<lambda>p. \<not> within (targetDirectoryOf E n name) p)
     (versionVendoredModule E n config baseTransforms udir (vendoredDirectoryForSDK E n) name)"
proof -
  let ?t = "path_join [vendoredDirectoryForSDK E n, name]"
  have pre: "preserves (\<lambda>p. \<not> within ?t p) (maybePrebuildSharedLibsAsync E name n)"
    by (rule preserves_mono [OF preserves_maybePrebuild [OF assms(2)]])
       (rule outside_trans [OF moduleRootDir_within])
  have "preserves (\<lambda>p. \<not> within ?t p)
     (versionVendoredModule E n config baseTransforms udir (vendoredDirectoryForSDK E n) name)"
    unfolding versionVendoredModule_def Let_def
  proof (intro preserves_bind preserves_reads preserves_fs_remove preserves_for_of preserves_engine pre)
    fix s p sourceFile'
    assume "\<not> within ?t p"
    then show "map_of (snd (copyFileWithTransformsAsync E
            \<lparr>sourceFile = sourceFile', sourceDirectory = path_join [udir, name],
               targetDirectory = ?t, transforms = moduleTransforms baseTransforms (config name)\<rparr> s)) p
          = map_of s p"
      using assms(1) by (simp add: engine_confined_def)
  qed
  then show ?thesis
    by (simp add: targetDirectoryOf_def)
qed

lemma module_event_of_module:
  assumes "versionVendoredModule E n config baseTransforms udir (vendoredDirectoryForSDK E n) name s = (r, s', es)"
  shows "list_all (module_event E n name) es"
proof -
  let ?t = "targetDirectoryOf E n name"
  have t: "path_join [vendoredDirectoryForSDK E n, name] = ?t"
    by (simp add: targetDirectoryOf_def)
  from module_events [OF assms] obtain es2 es3 where
    es: "es = Remove ?t # es2 @ es3"
    and c: "list_all (module_copy E config baseTransforms udir (vendoredDirectoryForSDK E n) name) es2"
    and p: "list_all (prebuild_event E n name) es3"
    unfolding t by blast
  have w: "within (moduleRootDir E n name) q \<Longrightarrow> within ?t q" for q
    by (rule within_trans [OF moduleRootDir_within_target])
  have "list_all (module_event E n name) es2"
    using c by (auto simp: list_all_iff module_copy_def module_event_def t)
  moreover have "prebuild_event E n name e \<Longrightarrow> module_event E n name e" for e
    by (cases e) (auto simp: prebuild_event_def module_event_def buildEvent_def w)
  then have "list_all (module_event E n name) es3"
    using p by (auto simp: list_all_iff)
  ultimately show ?thesis
    unfolding es by (simp add: module_event_def within_refl)
qed

lemma within_comparable: "within a p \<Longrightarrow> within b p \<Longrightarrow> within a b \<or> within b a"
proof -
  assume a: "within a p" and b: "within b p"
  show ?thesis
  proof (cases "p = a \<or> p = b")
    case True
    then show ?thesis using a b by auto
  next
    case False
    then have pa: "prefix (a @ ''/'') p" and pb: "prefix (b @ ''/'') p"
      using a b by (auto simp: within_def)
    then have "prefix (a @ ''/'') (b @ ''/'') \<or> prefix (b @ ''/'') (a @ ''/'')"
      by (rule prefix_same_cases)
    then show ?thesis
    proof
      assume "prefix (a @ ''/'') (b @ ''/'')"
      then have "a @ ''/'' = b @ ''/'' \<or> prefix (a @ ''/'') b"
        by (simp add: prefix_snoc del: append_assoc)
      then show ?thesis by (auto simp: within_def)
    next
      assume "prefix (b @ ''/'') (a @ ''/'')"
      then have "b @ ''/'' = a @ ''/'' \<or> prefix (b @ ''/'') a"
        by (simp add: prefix_snoc del: append_assoc)
      then show ?thesis by (auto simp: within_def)
    qed
  qed
qed

text \<open>
  C5, as amended. With a filter that is not \<^verbatim>\<open>null\<close>, the processed modules are the
  discovered modules that are in the filter, in the order of discovery, and the run is
  the loop over them. Every call of the run is addressed to a processed module. When the
  transform engine changes files only at or below the target directory it is given, and
  the build of each processed module only at or below that module's \<^verbatim>\<open>android\<close>
  directory, no path outside the target directories of the processed modules is created,
  deleted or modified; so the target directory of any other module is untouched, provided
  it neither lies in nor contains the target directory of a processed module.
\<close>

theorem filter_touches_processed_only:
  assumes "versionVendoredModulesAsync E n (Some wanted) s = (r, s', es)"
    and "engine_confined E"
    and "\<forall>name \<in> set (processedModules E (Some wanted) s). build_confined E n name"
  shows "processedModules E (Some wanted) s = filter (\<lambda>name. name \<in> set wanted) (discoveredModules E s)
    \<and> versionVendoredModulesAsync E n (Some wanted) s =
        for_of (filter (\<lambda>name. name \<in> set wanted) (discoveredModules E s))
          (versionVendoredModule E n (vendoredModulesTransforms E (versionPrefix n))
             (baseTransformsFactory (versionPrefix n)) (unversionedDir E) (vendoredDirectoryForSDK E n)) s
    \<and> list_all (\<lambda>e. \<exists>name \<in> set (processedModules E (Some wanted) s). module_event E n name e) es
    \<and> (\<forall>p. (\<forall>name \<in> set (processedModules E (Some wanted) s). \<not> within (targetDirectoryOf E n name) p)
          \<longrightarrow> map_of s' p = map_of s p)
    \<and> (\<forall>other.
          (\<forall>name \<in> set (processedModules E (Some wanted) s).
              \<not> within (targetDirectoryOf E n name) (targetDirectoryOf E n other)
            \<and> \<not> within (targetDirectoryOf E n other) (targetDirectoryOf E n name))
          \<longrightarrow> (\<forall>p. within (targetDirectoryOf E n other) p \<longrightarrow> map_of s' p = map_of s p))"
proof -
  let ?sel = "processedModules E (Some wanted) s"
  let ?body = "versionVendoredModule E n (vendoredModulesTransforms E (versionPrefix n))
             (baseTransformsFactory (versionPrefix n)) (unversionedDir E) (vendoredDirectoryForSDK E n)"
  let ?K = "\<lambda>p. \<forall>name \<in> set ?sel. \<not> within (targetDirectoryOf E n name) p"
  have sel: "?sel = filter (\<lambda>name. name \<in> set wanted) (discoveredModules E s)"
    by (simp add: processedModules_def selectModules_def)
  have run: "versionVendoredModulesAsync E n (Some wanted) s = for_of ?sel ?body s"
    by (rule versionVendoredModulesAsync_eq)
  have ev: "list_all (\<lambda>e. \<exists>name \<in> set ?sel. module_event E n name e) es"
  proof -
    have "list_all (\<lambda>e. \<exists>name \<in> set ?sel. module_event E n name e)
            (events_of (versionVendoredModulesAsync E n (Some wanted) s))"
    proof (rule run_events)
      fix name t
      assume name: "name \<in> set ?sel"
      have "?body name t = (result_of (?body name t), fs_of (?body name t), events_of (?body name t))"
        by simp
      from module_event_of_module [OF this]
      show "list_all (\<lambda>e. \<exists>name \<in> set ?sel. module_event E n name e) (events_of (?body name t))"
        using name by (auto simp: list_all_iff)
    qed simp_all
    then show ?thesis using assms(1) by simp
  qed
  have "preserves ?K (for_of ?sel ?body)"
  proof (rule preserves_for_of)
    fix name
    assume name: "name \<in> set ?sel"
    then have "build_confined E n name" using assms(3) by blast
    from preserves_module [OF assms(2) this]
    show "preserves ?K (?body name)"
      by (rule preserves_mono) (use name in blast)
  qed
  then have frame: "?K p \<Longrightarrow> map_of s' p = map_of s p" for p
    using assms(1) run by (auto simp: preserves_def dest!: spec [of _ s])
  have other: "map_of s' p = map_of s p"
    if o: "\<forall>name \<in> set ?sel. \<not> within (targetDirectoryOf E n name) (targetDirectoryOf E n other)
            \<and> \<not> within (targetDirectoryOf E n other) (targetDirectoryOf E n name)"
      and p: "within (targetDirectoryOf E n other) p" for other p
  proof (rule frame, rule ballI)
    fix name
    assume "name \<in> set ?sel"
    then show "\<not> within (targetDirectoryOf E n name) p"
      using o p within_comparable by blast
  qed
  show ?thesis
    using sel run [unfolded sel] ev frame other by blast
qed

lemma engine_confined_demo: "engine_confined demo_env"
  using within_sub by (auto simp: engine_confined_def demo_env_def update_conv')

lemma build_confined_demo: "build_confined demo_env 45 ''m''"
proof -
  have "within (moduleRootDir demo_env 45 ''m'')
          ''/A/vendored/sdk45/m/android/build/intermediates/library_jni/release/jni/arm64/libm.so''"
    by code_simp
  then show ?thesis
    by (auto simp: build_confined_def buildOf_def demo_env_def update_conv')
qed

theorem filter_touches_processed_only_witness:
  "engine_confined demo_env
   \<and> processedModules demo_env (Some [''m'']) demo_prev_fs = [''m'']
   \<and> build_confined demo_env 45 ''m''
   \<and> discoveredModules demo_env demo_prev_fs = [''m'', ''n'']
   \<and> map_of demo_prev_fs ''/A/vendored/sdk45/n/android/build.gradle'' = Some ''versioned before''
   \<and> map_of (fs_of (versionVendoredModulesAsync demo_env 45 (Some [''m'']) demo_prev_fs))
        ''/A/vendored/sdk45/n/android/build.gradle'' = Some ''versioned before''"
proof -
  let ?X = "versionVendoredModulesAsync demo_env 45 (Some [''m'']) demo_prev_fs"
  have h: "?X = (result_of ?X, fs_of ?X, events_of ?X)"
    by simp
  have sel: "processedModules demo_env (Some [''m'']) demo_prev_fs = [''m'']"
    by code_simp
  have disc: "discoveredModules demo_env demo_prev_fs = [''m'', ''n'']"
    by code_simp
  have b: "\<forall>name \<in> set (processedModules demo_env (Some [''m'']) demo_prev_fs). build_confined demo_env 45 name"
    using build_confined_demo by (simp add: sel)
  note t = filter_touches_processed_only [OF h engine_confined_demo b]
  have out: "\<forall>name \<in> set (processedModules demo_env (Some [''m'']) demo_prev_fs).
      \<not> within (targetDirectoryOf demo_env 45 name) ''/A/vendored/sdk45/n/android/build.gradle''"
    unfolding sel by code_simp
  from t [THEN conjunct2, THEN conjunct2, THEN conjunct2, THEN conjunct1, THEN spec, THEN mp, OF out]
  have same: "map_of (fs_of ?X) ''/A/vendored/sdk45/n/android/build.gradle''
          = map_of demo_prev_fs ''/A/vendored/sdk45/n/android/build.gradle''" .
  have before: "map_of demo_prev_fs ''/A/vendored/sdk45/n/android/build.gradle'' = Some ''versioned before''"
    by code_simp
  show ?thesis
    using engine_confined_demo sel build_confined_demo disc before same by simp
qed

text \<open>
  C5 as it is stated fails for modules in nested directories: with the modules
  \<^verbatim>\<open>foo\<close> and \<^verbatim>\<open>foo/bar\<close> discovered and only \<^verbatim>\<open>foo\<close> in the filter, the target
  directory of \<^verbatim>\<open>foo/bar\<close> is removed with that of \<^verbatim>\<open>foo\<close> and written again from
  the files of \<^verbatim>\<open>foo\<close>.
\<close>

theorem filter_nested_module_counterexample:
  "discoveredModules nested_env nested_fs = [''foo'', ''foo/bar'']
   \<and> processedModules nested_env (Some [''foo'']) nested_fs = [''foo'']
   \<and> within (targetDirectoryOf nested_env 45 ''foo/bar'')
        ''/A/vendored/sdk45/foo/bar/android/src/main/jniLibs/arm64/libbar.so''
   \<and> map_of nested_fs ''/A/vendored/sdk45/foo/bar/android/src/main/jniLibs/arm64/libbar.so'' = Some ''ELF''
   \<and> map_of (fs_of (versionVendoredModulesAsync nested_env 45 (Some [''foo'']) nested_fs))
        ''/A/vendored/sdk45/foo/bar/android/src/main/jniLibs/arm64/libbar.so'' = None
   \<and> map_of (fs_of (versionVendoredModulesAsync nested_env 45 (Some [''foo'']) nested_fs))
        ''/A/vendored/sdk45/foo/bar/android/build.gradle'' = Some ''g2''"
  by code_simp

end
